theory Spec2Isabelle
  imports Complex_Main "HOL-Library.AList"
begin

section \<open>The community and logging server (server.py)\<close>

text \<open>
  A shallow embedding of \<^verbatim>\<open>src/server/server.py\<close>. The file system under
  \<^verbatim>\<open>data/\<close> is an explicit store, the clock (\<^verbatim>\<open>current_unix_time()\<close>) is an
  argument \<open>now\<close>, the module-level attribute \<^verbatim>\<open>session.uid\<close> is a field of the
  state, and every exception the handlers can raise is a value of \<open>error\<close>.
  The clock does not advance while one handler runs. Python floats are read as real
  numbers: rounding is not modelled.
\<close>

subsection \<open>Python values and exceptions\<close>

datatype error =
    AttributeError
  | KeyError
  | TypeError
  | ValueError
  | ZeroDivisionError
  | UnboundLocalError
  | IndexError
  | NegativePower
    \<comment> \<open>a negative float raised to the fractional power \<^verbatim>\<open>GRAVITY\<close>: Python 2 raises
        ValueError, Python 3 gives a complex number instead of a float\<close>

text \<open>The values \<^verbatim>\<open>json.loads\<close> produces and \<^verbatim>\<open>json.dumps\<close> accepts.\<close>

datatype json =
    JNull
  | JBool bool
  | JInt int
  | JFloat real
  | JString string
  | JArray "json list"
  | JObject "(string \<times> json) list"

abbreviation NL :: char where
  "NL \<equiv> CHR 0x0A"

definition is_space :: "char \<Rightarrow> bool" where
  "is_space c = (c \<in> {CHR 0x20, CHR 0x09, CHR 0x0A, CHR 0x0B, CHR 0x0C, CHR 0x0D})"

text \<open>\<^verbatim>\<open>s.strip()\<close>\<close>

definition strip :: "string \<Rightarrow> string" where
  "strip s = rev (dropWhile is_space (rev (dropWhile is_space s)))"

text \<open>\<^verbatim>\<open>str(n)\<close> for an integer: the decimal numeral, with a minus sign when negative.\<close>

definition digit_char :: "nat \<Rightarrow> char" where
  "digit_char d = char_of (48 + d)"

function str_nat :: "nat \<Rightarrow> string" where
  "str_nat n = (if n < 10 then [digit_char n] else str_nat (n div 10) @ [digit_char (n mod 10)])"
  by pat_completeness auto
termination
  by (relation "measure id") auto

declare str_nat.simps [simp del]

definition str :: "int \<Rightarrow> string" where
  "str i = (if i < 0 then CHR ''-'' # str_nat (nat (- i)) else str_nat (nat i))"

text \<open>
  \<^verbatim>\<open>int(x)\<close>. On a string: surrounding whitespace is dropped, one sign is allowed, and the
  rest must be a non-empty run of decimal digits (digit separators and non-ASCII digits,
  which the server never writes, are not modelled and count as malformed).
\<close>

definition is_digit :: "char \<Rightarrow> bool" where
  "is_digit c = (48 \<le> (of_char c :: nat) \<and> (of_char c :: nat) \<le> 57)"

definition digit_val :: "char \<Rightarrow> nat" where
  "digit_val c = of_char c - 48"

definition int_digits :: "string \<Rightarrow> error + nat" where
  "int_digits s =
     (if s \<noteq> [] \<and> list_all is_digit s
      then Inr (foldl (\<lambda>acc c. 10 * acc + digit_val c) 0 s)
      else Inl ValueError)"

definition int_str :: "string \<Rightarrow> error + int" where
  "int_str s =
     (case strip s of
        c # cs \<Rightarrow>
          (if c = CHR ''-'' then (case int_digits cs of Inl e \<Rightarrow> Inl e | Inr n \<Rightarrow> Inr (- int n))
           else if c = CHR ''+'' then (case int_digits cs of Inl e \<Rightarrow> Inl e | Inr n \<Rightarrow> Inr (int n))
           else (case int_digits (c # cs) of Inl e \<Rightarrow> Inl e | Inr n \<Rightarrow> Inr (int n)))
      | [] \<Rightarrow> Inl ValueError)"

fun py_int :: "json \<Rightarrow> error + int" where
  "py_int (JInt i) = Inr i"
| "py_int (JBool b) = Inr (if b then 1 else 0)"
| "py_int (JFloat r) = Inr (if 0 \<le> r then \<lfloor>r\<rfloor> else \<lceil>r\<rceil>)"
| "py_int (JString s) = int_str s"
| "py_int JNull = Inl TypeError"
| "py_int (JArray xs) = Inl TypeError"
| "py_int (JObject kvs) = Inl TypeError"

text \<open>\<^verbatim>\<open>len(x)\<close>\<close>

fun py_len :: "json \<Rightarrow> error + nat" where
  "py_len (JArray xs) = Inr (length xs)"
| "py_len (JString s) = Inr (length s)"
| "py_len (JObject kvs) = Inr (length kvs)"
| "py_len JNull = Inl TypeError"
| "py_len (JBool b) = Inl TypeError"
| "py_len (JInt i) = Inl TypeError"
| "py_len (JFloat r) = Inl TypeError"

subsection \<open>Scoring\<close>

definition GRAVITY :: real where
  "GRAVITY = 1.4"

definition TIME_INTERVAL :: real where
  "TIME_INTERVAL = 1800.0"

text \<open>
  \<^verbatim>\<open>
  def score_struct(timestamp, upvotesN):
      time_ago = (current_unix_time() / TIME_INTERVAL) - (int(timestamp) / TIME_INTERVAL)
      return (upvotesN + 1) / ((time_ago + 2) ** GRAVITY)
  \<close>
  \<^verbatim>\<open>int(timestamp)\<close> can raise; \<^verbatim>\<open>0.0 ** 1.4\<close> is \<^verbatim>\<open>0.0\<close> and the division by it
  raises ZeroDivisionError; a negative base has no float power.
\<close>

definition score_struct :: "int \<Rightarrow> json \<Rightarrow> nat \<Rightarrow> error + real" where
  "score_struct now timestamp upvotesN =
     (case py_int timestamp of
        Inl e \<Rightarrow> Inl e
      | Inr ts \<Rightarrow>
          (let time_ago = (real_of_int now / TIME_INTERVAL) - (real_of_int ts / TIME_INTERVAL);
               base = time_ago + 2
           in if base < 0 then Inl NegativePower
              else if base powr GRAVITY = 0 then Inl ZeroDivisionError
              else Inr ((real upvotesN + 1) / (base powr GRAVITY))))"

text \<open>\<^verbatim>\<open>uid[:8]\<close>\<close>

definition scrub_uid :: "string \<Rightarrow> string" where
  "scrub_uid uid = take 8 uid"


subsection \<open>Reading a log from its end\<close>

text \<open>\<^verbatim>\<open>buffer.split('\n')\<close>: the pieces between the newlines, always at least one.\<close>

fun split_nl :: "string \<Rightarrow> string list" where
  "split_nl [] = [[]]"
| "split_nl (c # cs) =
     (if c = NL then [] # split_nl cs
      else (c # hd (split_nl cs)) # tl (split_nl cs))"

text \<open>
  \<^verbatim>\<open>
  def reverse_readline(filename, buf_size=8192):
      with open(filename) as fh:
          segment = None
          offset = 0
          fh.seek(0, os.SEEK_END)
          file_size = remaining_size = fh.tell()
          while remaining_size > 0:
              offset = min(file_size, offset + buf_size)
              fh.seek(file_size - offset)
              buffer = fh.read(min(remaining_size, buf_size))
              remaining_size -= buf_size
              lines = buffer.split('\n')
              if segment is not None:
                  if buffer[-1] is not '\n':
                      lines[-1] += segment
                  else:
                      yield segment
              segment = lines[0]
              for index in range(len(lines) - 1, 0, -1):
                  if len(lines[index]):
                      yield lines[index]
          if segment is not None:
              yield segment
  \<close>
  The file is its content \<open>data\<close>, one \<open>char\<close> per byte (the logs are ASCII:
  \<^verbatim>\<open>json.dump\<close> escapes everything else). The generator is run to its end and \<open>out\<close>
  collects what it yields, in order. \<^verbatim>\<open>buffer[-1]\<close> raises IndexError on an empty
  buffer, which happens only for \<^verbatim>\<open>buf_size = 0\<close>. The identity test
  \<^verbatim>\<open>is not '\n'\<close> on a one-character string is an equality test in CPython, which
  shares its one-character strings. \<open>remaining_size\<close> is an integer and goes below zero
  in the last round.
\<close>

function rr_loop ::
  "string \<Rightarrow> nat \<Rightarrow> string option \<Rightarrow> nat \<Rightarrow> int \<Rightarrow> string list \<Rightarrow> error + string list" where
  "rr_loop data buf_size segment offset remaining_size out =
     (if remaining_size > 0 then
        (let file_size = length data;
             offset' = min file_size (offset + buf_size);
             buffer = take (nat (min remaining_size (int buf_size))) (drop (file_size - offset') data);
             remaining_size' = remaining_size - int buf_size;
             lines = split_nl buffer
         in case segment of
              None \<Rightarrow>
                rr_loop data buf_size (Some (hd lines)) offset' remaining_size'
                  (out @ filter (\<lambda>l. l \<noteq> []) (rev (tl lines)))
            | Some seg \<Rightarrow>
                if buffer = [] then Inl IndexError
                else if last buffer \<noteq> NL then
                  (let lines' = butlast lines @ [last lines @ seg]
                   in rr_loop data buf_size (Some (hd lines')) offset' remaining_size'
                        (out @ filter (\<lambda>l. l \<noteq> []) (rev (tl lines'))))
                else
                  rr_loop data buf_size (Some (hd lines)) offset' remaining_size'
                    (out @ [seg] @ filter (\<lambda>l. l \<noteq> []) (rev (tl lines))))
      else Inr (out @ (case segment of None \<Rightarrow> [] | Some seg \<Rightarrow> [seg])))"
  by pat_completeness auto
termination
proof (relation "measure (\<lambda>(data, buf_size, segment, offset, remaining_size, out).
          2 * nat remaining_size + (if segment = None then 1 else 0))", goal_cases)
  case 1
  show ?case by simp
next
  case (2 data buf_size segment offset remaining_size out)
  then show ?case by auto
next
  case (3 data buf_size segment offset remaining_size out file_size offset' buffer)
  then have "0 < buf_size" by (cases "buf_size = 0") auto
  with 3 show ?case by auto
next
  case (4 data buf_size segment offset remaining_size out file_size offset' buffer)
  then have "0 < buf_size" by (cases "buf_size = 0") auto
  with 4 show ?case by auto
qed

declare rr_loop.simps [simp del]

definition reverse_readline :: "string \<Rightarrow> nat \<Rightarrow> error + string list" where
  "reverse_readline data buf_size = rr_loop data buf_size None 0 (int (length data)) []"

text \<open>
  A log as \<^verbatim>\<open>log()\<close> writes it: every entry is followed by a newline
  (\<^verbatim>\<open>json.dump(message, f); f.write('\n')\<close>).
\<close>

definition log_file :: "string list \<Rightarrow> string" where
  "log_file es = concat (map (\<lambda>e. e @ [NL]) es)"

text \<open>
  The specification of \<open>recentEntries\<close>, in its words: read the whole log forward, keep
  the matching entries, take the last \<open>maxCount\<close> of them, most recent first.
\<close>

definition recentEntries_spec :: "(string \<Rightarrow> bool) \<Rightarrow> nat \<Rightarrow> string list \<Rightarrow> string list" where
  "recentEntries_spec P maxCount es =
     rev (drop (length (filter P es) - maxCount) (filter P es))"


subsection \<open>The store, the session and the messages\<close>

text \<open>
  \<^verbatim>\<open>data/structs/\<close> holds one directory per session id, each holding the struct files
  of that user; \<^verbatim>\<open>data/log/\<close> holds one log per session id. A directory is the list of
  its entries, name and content, in the order \<^verbatim>\<open>os.listdir\<close> returns them, one pair per
  name. The keys of \<open>structs\<close> are the names of the directories in
  \<^verbatim>\<open>data/structs/\<close>, each a single path component.

  \<^verbatim>\<open>session\<close> is rebound by \<^verbatim>\<open>def session(data)\<close> to a module-level object, and
  \<^verbatim>\<open>session.uid\<close> is an attribute of it: absent (\<open>None\<close>, reading it raises
  AttributeError) until the \<^verbatim>\<open>session\<close> handler has run.
\<close>

type_synonym folder = "(string \<times> string) list"

record server =
  structs :: "(string \<times> folder) list"
  logs :: "(string \<times> string) list"
  session_uid :: "string option"

datatype message =
    StructMsg string string real json json
    \<comment> \<open>\<^verbatim>\<open>{"uid", "id", "score", "upvotes", "struct"}\<close>\<close>
  | UpvoteMsg string string string real
    \<comment> \<open>\<^verbatim>\<open>{"uid", "id", "up", "score"}\<close>\<close>
  | NewAccept string json int
    \<comment> \<open>\<^verbatim>\<open>{"uid", "query", "timestamp"}\<close>\<close>
  | NewDefine string json int
    \<comment> \<open>\<^verbatim>\<open>{"uid", "defined", "timestamp"}\<close>\<close>

text \<open>
  \<^verbatim>\<open>emit(name, message)\<close> goes to the requesting client (\<open>None\<close>);
  \<^verbatim>\<open>emit(name, message, broadcast=True, room=r)\<close> goes to the room \<open>r\<close>.
\<close>

datatype emission = Emission string message "string option"

text \<open>
  What a handler leaves behind: the state, what it emitted, and the exception that ended
  it, if any. Writes and emissions made before an exception stay.
\<close>

type_synonym outcome = "server \<times> emission list \<times> error option"

definition struct_file :: "server \<Rightarrow> string \<Rightarrow> string \<Rightarrow> string option" where
  "struct_file st uid fname =
     (case map_of (structs st) uid of None \<Rightarrow> None | Some folder \<Rightarrow> map_of folder fname)"

definition user_folder :: "server \<Rightarrow> string \<Rightarrow> folder" where
  "user_folder st uid = (case map_of (structs st) uid of None \<Rightarrow> [] | Some folder \<Rightarrow> folder)"

text \<open>
  Writing a file into the directory \<open>uid\<close> of \<^verbatim>\<open>data/structs/\<close>, for a directory name
  and a file name that are single path components: \<^verbatim>\<open>handle_share\<close> calls it for such
  a session id only, \<^verbatim>\<open>upvote\<close> for a file it has found under that name.
\<close>

definition write_struct :: "server \<Rightarrow> string \<Rightarrow> string \<Rightarrow> string \<Rightarrow> server" where
  "write_struct st uid fname content =
     st\<lparr>structs := AList.update uid (AList.update fname content (user_folder st uid)) (structs st)\<rparr>"

text \<open>\<^verbatim>\<open>f.readline()\<close>: the next line with its newline, and what is left to read.\<close>

definition readline :: "string \<Rightarrow> string \<times> string" where
  "readline s =
     (case dropWhile (\<lambda>c. c \<noteq> NL) s of
        [] \<Rightarrow> (s, [])
      | c # rest \<Rightarrow> (takeWhile (\<lambda>c. c \<noteq> NL) s @ [NL], rest))"

text \<open>\<^verbatim>\<open>f.readlines()\<close>: the lines, each with its newline, the last one possibly without.\<close>

fun readlines :: "string \<Rightarrow> string list" where
  "readlines [] = []"
| "readlines (c # cs) =
     (if c = NL then [NL] # readlines cs
      else (case readlines cs of [] \<Rightarrow> [[c]] | l # ls \<Rightarrow> (c # l) # ls))"

text \<open>\<^verbatim>\<open>name[:-5]\<close>\<close>

definition drop_ext :: "string \<Rightarrow> string" where
  "drop_ext name = take (length name - 5) name"

text \<open>\<^verbatim>\<open>x[key]\<close> for a string key, and \<^verbatim>\<open>key in x\<close> for a string.\<close>

fun py_getitem :: "json \<Rightarrow> string \<Rightarrow> error + json" where
  "py_getitem (JObject kvs) k = (case map_of kvs k of None \<Rightarrow> Inl KeyError | Some v \<Rightarrow> Inr v)"
| "py_getitem JNull k = Inl TypeError"
| "py_getitem (JBool b) k = Inl TypeError"
| "py_getitem (JInt i) k = Inl TypeError"
| "py_getitem (JFloat r) k = Inl TypeError"
| "py_getitem (JString s) k = Inl TypeError"
| "py_getitem (JArray xs) k = Inl TypeError"

fun is_substring :: "string \<Rightarrow> string \<Rightarrow> bool" where
  "is_substring u [] = (u = [])"
| "is_substring u (c # cs) = (take (length u) (c # cs) = u \<or> is_substring u cs)"

fun py_in :: "string \<Rightarrow> json \<Rightarrow> error + bool" where
  "py_in u (JArray xs) = Inr (JString u \<in> set xs)"
| "py_in u (JObject kvs) = Inr (u \<in> fst ` set kvs)"
| "py_in u (JString s) = Inr (is_substring u s)"
| "py_in u JNull = Inl TypeError"
| "py_in u (JBool b) = Inl TypeError"
| "py_in u (JInt i) = Inl TypeError"
| "py_in u (JFloat r) = Inl TypeError"

subsection \<open>Logging\<close>

text \<open>
  \<^verbatim>\<open>
  def log(message):
      path = os.path.join(LOG_FOLDER, session.uid + ".json")
      message["timestamp"] = current_unix_time()
      with open(path, 'a') as f:
          json.dump(message, f)
          f.write('\n')
  \<close>
  \<^verbatim>\<open>json.dumps\<close> and \<^verbatim>\<open>json.loads\<close> are the library's; the handlers take them as
  \<open>dumps\<close> and \<open>loads\<close>.
\<close>

definition log_msg ::
  "(json \<Rightarrow> string) \<Rightarrow> int \<Rightarrow> server \<Rightarrow> (string \<times> json) list \<Rightarrow> error + server" where
  "log_msg dumps now st message =
     (case session_uid st of
        None \<Rightarrow> Inl AttributeError
      | Some uid \<Rightarrow>
          (let path = uid @ ''.json'';
               message' = AList.update ''timestamp'' (JInt now) message;
               old = (case map_of (logs st) path of None \<Rightarrow> [] | Some c \<Rightarrow> c)
           in Inr (st\<lparr>logs := AList.update path (old @ dumps (JObject message') @ [NL]) (logs st)\<rparr>)))"

text \<open>
  \<^verbatim>\<open>
  def handle_log(data):
      if "type" not in data:
          return
      log(data)
      if data["type"] == "accept":
          emit("new_accept", {"uid": scrub_uid(session.uid), "query": data["msg"]["query"],
               "timestamp": current_unix_time()}, broadcast=True, room="community")
      elif data["type"] == "define":
          emit("new_define", {"uid": scrub_uid(session.uid), "defined": data["msg"]["defineAs"],
               "timestamp": current_unix_time()}, broadcast=True, room="community")
  \<close>
  The request \<open>data\<close> is a dict. The clock is read once per handler.
\<close>

definition handle_log ::
  "(json \<Rightarrow> string) \<Rightarrow> int \<Rightarrow> server \<Rightarrow> (string \<times> json) list \<Rightarrow> outcome" where
  "handle_log dumps now st data =
     (case map_of data ''type'' of
        None \<Rightarrow> (st, [], None)
      | Some t \<Rightarrow>
          (case log_msg dumps now st data of
             Inl e \<Rightarrow> (st, [], Some e)
           | Inr st' \<Rightarrow>
               (let uid = scrub_uid (the (session_uid st)) in
                if t = JString ''accept'' then
                  (case py_getitem (JObject data) ''msg'' of
                     Inl e \<Rightarrow> (st', [], Some e)
                   | Inr msg \<Rightarrow>
                       (case py_getitem msg ''query'' of
                          Inl e \<Rightarrow> (st', [], Some e)
                        | Inr q \<Rightarrow>
                            (st', [Emission ''new_accept'' (NewAccept uid q now) (Some ''community'')],
                             None)))
                else if t = JString ''define'' then
                  (case py_getitem (JObject data) ''msg'' of
                     Inl e \<Rightarrow> (st', [], Some e)
                   | Inr msg \<Rightarrow>
                       (case py_getitem msg ''defineAs'' of
                          Inl e \<Rightarrow> (st', [], Some e)
                        | Inr d \<Rightarrow>
                            (st', [Emission ''new_define'' (NewDefine uid d now) (Some ''community'')],
                             None)))
                else (st', [], None))))"


subsection \<open>Sharing a struct\<close>

text \<open>
  \<^verbatim>\<open>user_structs_folder = os.path.join(STRUCTS_FOLDER, session.uid)\<close> is a path, and
  the operating system resolves it. A session id that is a single path component (not
  empty, not \<^verbatim>\<open>.\<close> or \<^verbatim>\<open>..\<close>, without \<^verbatim>\<open>/\<close> and without a NUL character)
  names the directory of that name inside \<^verbatim>\<open>data/structs/\<close>. The id \<^verbatim>\<open>..\<close> names
  \<^verbatim>\<open>data/\<close> itself, which holds the directories \<^verbatim>\<open>log\<close> and \<^verbatim>\<open>structs\<close> that
  the server creates when it starts. Every other id (the empty one and \<^verbatim>\<open>.\<close>, which
  name \<^verbatim>\<open>data/structs/\<close> itself, and the ids that contain \<^verbatim>\<open>/\<close> or NUL) names a
  place that the store of this theory does not describe.
\<close>

definition path_component :: "string \<Rightarrow> bool" where
  "path_component uid =
     (uid \<noteq> [] \<and> uid \<noteq> ''.'' \<and> uid \<noteq> ''..'' \<and> CHR ''/'' \<notin> set uid \<and> CHR 0x00 \<notin> set uid)"

datatype location = UserDir string | DataDir | Unmodelled

definition locate :: "string \<Rightarrow> location" where
  "locate uid =
     (if path_component uid then UserDir uid
      else if uid = ''..'' then DataDir
      else Unmodelled)"

text \<open>\<^verbatim>\<open>os.listdir("data/")\<close>\<close>

definition data_names :: "string list" where
  "data_names = [''log'', ''structs'']"

text \<open>
  \<^verbatim>\<open>
  names = os.listdir(user_structs_folder)
  new_struct_id = "1"
  if len(names) > 0:
      new_struct_id = str(max([int(name[:-5]) for name in names]) + 1)
  \<close>
\<close>

fun ints_of_names :: "string list \<Rightarrow> error + int list" where
  "ints_of_names [] = Inr []"
| "ints_of_names (name # names) =
     (case int_str (drop_ext name) of
        Inl e \<Rightarrow> Inl e
      | Inr i \<Rightarrow> (case ints_of_names names of Inl e \<Rightarrow> Inl e | Inr is \<Rightarrow> Inr (i # is)))"

definition new_struct_id :: "string list \<Rightarrow> error + string" where
  "new_struct_id names =
     (if length names > 0
      then (case ints_of_names names of
              Inl e \<Rightarrow> Inl e
            | Inr is \<Rightarrow> Inr (str (Max (set is) + 1)))
      else Inr ''1'')"

text \<open>
  \<^verbatim>\<open>
  def handle_share(data):
      user_structs_folder = os.path.join(STRUCTS_FOLDER, session.uid)
      make_dir_if_necessary(user_structs_folder)
      names = os.listdir(user_structs_folder)
      ...
      new_struct_path = os.path.join(user_structs_folder, new_struct_id + ".json")
      submission_time = current_unix_time()
      score = score_struct(submission_time, 0)
      with open(new_struct_path, 'w') as f:
          f.write("[]\n")
          f.write(str(submission_time) + "\n")
          f.write(json.dumps(data["struct"]))
      message = {"uid": scrub_uid(session.uid), "id": new_struct_id, "score": score,
                 "upvotes": [], "struct": data["struct"]}
      emit("struct", message, broadcast=True, room="community")
  \<close>
  A request without \<^verbatim>\<open>"struct"\<close> raises KeyError inside the \<^verbatim>\<open>with\<close> block, after
  the first two lines were written: the file stays, with two lines.

  The result is \<open>None\<close> where the session id names a place outside the store (see
  \<open>locate\<close>): the theory says nothing about what the handler does there. For the id
  \<^verbatim>\<open>..\<close> the directory exists, nothing is created, and the names listed are those of
  \<^verbatim>\<open>data/\<close>.
\<close>

definition handle_share ::
  "(json \<Rightarrow> string) \<Rightarrow> int \<Rightarrow> server \<Rightarrow> (string \<times> json) list \<Rightarrow> outcome option" where
  "handle_share dumps now st data =
     (case session_uid st of
        None \<Rightarrow> Some (st, [], Some AttributeError)
      | Some uid \<Rightarrow>
          (case locate uid of
             Unmodelled \<Rightarrow> None
           | DataDir \<Rightarrow>
               (case new_struct_id data_names of
                  Inl e \<Rightarrow> Some (st, [], Some e)
                | Inr new_id \<Rightarrow> None)
           | UserDir dir \<Rightarrow>
               (let st1 = st\<lparr>structs := AList.update dir (user_folder st dir) (structs st)\<rparr>;
                    names = map fst (user_folder st dir)
                in case new_struct_id names of
                     Inl e \<Rightarrow> Some (st1, [], Some e)
                   | Inr new_id \<Rightarrow>
                       (case score_struct now (JInt now) 0 of
                          Inl e \<Rightarrow> Some (st1, [], Some e)
                        | Inr score \<Rightarrow>
                            (let header = ''[]'' @ [NL] @ str now @ [NL]
                             in case map_of data ''struct'' of
                                  None \<Rightarrow>
                                    Some (write_struct st1 dir (new_id @ ''.json'') header, [],
                                          Some KeyError)
                                | Some struct \<Rightarrow>
                                    Some (write_struct st1 dir (new_id @ ''.json'')
                                            (header @ dumps struct),
                                          [Emission ''struct''
                                             (StructMsg (scrub_uid uid) new_id score (JArray []) struct)
                                             (Some ''community'')],
                                          None))))))"

text \<open>
  A run of share requests, each made by a connection whose session id is bound: the owner,
  the clock and the request. It is \<open>None\<close> as soon as one of them is.
\<close>

fun run_shares ::
  "(json \<Rightarrow> string) \<Rightarrow> server \<Rightarrow> (string \<times> int \<times> (string \<times> json) list) list
     \<Rightarrow> server option" where
  "run_shares dumps st [] = Some st"
| "run_shares dumps st ((uid, now, data) # ops) =
     (case handle_share dumps now (st\<lparr>session_uid := Some uid\<rparr>) data of
        None \<Rightarrow> None
      | Some out \<Rightarrow> run_shares dumps (fst out) ops)"

definition empty_server :: server where
  "empty_server = \<lparr>structs = [], logs = [], session_uid = None\<rparr>"

subsection \<open>Upvoting\<close>

text \<open>
  \<^verbatim>\<open>
  def upvote(data):
      if not session.uid:
          return
      user_structs_folder = os.path.join(STRUCTS_FOLDER, data["uid"])
      struct_path = os.path.join(STRUCTS_FOLDER, data["uid"], data["id"] + ".json")
      if not os.path.isfile(struct_path):
          return
      upvotes = []
      score = 0
      with open(struct_path, 'r') as f:
          upvotes = json.loads(f.readline().strip())
          if session.uid not in upvotes:
              upvotes.append(session.uid)
              with open(struct_path, 'w') as fw:
                  fw.write(json.dumps(upvotes) + "\n")
                  timestamp = f.readline()
                  fw.write(timestamp)
                  fw.write(f.readline())
      score = score_struct(timestamp, len(upvotes))
      message = {"uid": data["uid"], "id": data["id"], "up": scrub_uid(session.uid), "score": score}
      emit("upvote", message, broadcast=True, room="community")
  \<close>
  \<^verbatim>\<open>timestamp\<close> is a local variable of \<^verbatim>\<open>upvote\<close>, assigned only where the voter is
  added: on the other path the call of \<^verbatim>\<open>score_struct\<close> reads it unassigned and raises
  UnboundLocalError.

  Where the voter is added, the file is truncated by \<^verbatim>\<open>open(struct_path, 'w')\<close> while
  the reader \<^verbatim>\<open>f\<close> is still open, and \<^verbatim>\<open>fw\<close> is flushed only when its block ends.
  The two later reads of \<^verbatim>\<open>f\<close> therefore see what \<^verbatim>\<open>f\<close> had fetched for the first
  \<^verbatim>\<open>readline\<close>, and then the end of the file. CPython's text reader fetches 8192
  characters at a time, until the line is complete: a record longer than that is written
  back cut off.
\<close>

definition READ_CHUNK :: nat where
  "READ_CHUNK = 8192"

definition fetched :: "string \<Rightarrow> string" where
  "fetched content =
     (let n = length (fst (readline content))
      in take (((n + READ_CHUNK - 1) div READ_CHUNK) * READ_CHUNK) content)"

definition upvote ::
  "(string \<Rightarrow> error + json) \<Rightarrow> (json \<Rightarrow> string) \<Rightarrow> int \<Rightarrow> server \<Rightarrow> (string \<times> json) list
     \<Rightarrow> outcome" where
  "upvote loads dumps now st data =
     (case session_uid st of
        None \<Rightarrow> (st, [], Some AttributeError)
      | Some suid \<Rightarrow>
          if suid = [] then (st, [], None)
          else
            (case map_of data ''uid'' of
               None \<Rightarrow> (st, [], Some KeyError)
             | Some (JString duid) \<Rightarrow>
                 (case map_of data ''id'' of
                    None \<Rightarrow> (st, [], Some KeyError)
                  | Some (JString did) \<Rightarrow>
                      (case struct_file st duid (did @ ''.json'') of
                         None \<Rightarrow> (st, [], None)
                       | Some content \<Rightarrow>
                           (case loads (strip (fst (readline content))) of
                              Inl e \<Rightarrow> (st, [], Some e)
                            | Inr upvotes \<Rightarrow>
                                (case py_in suid upvotes of
                                   Inl e \<Rightarrow> (st, [], Some e)
                                 | Inr True \<Rightarrow> (st, [], Some UnboundLocalError)
                                 | Inr False \<Rightarrow>
                                     (case upvotes of
                                        JArray ups \<Rightarrow>
                                          (let upvotes' = JArray (ups @ [JString suid]);
                                               rest = drop (length (fst (readline content)))
                                                        (fetched content);
                                               timestamp = fst (readline rest);
                                               struct = fst (readline (snd (readline rest)));
                                               st' = write_struct st duid (did @ ''.json'')
                                                       (dumps upvotes' @ [NL] @ timestamp @ struct)
                                           in case score_struct now (JString timestamp) (length ups + 1) of
                                                Inl e \<Rightarrow> (st', [], Some e)
                                              | Inr score \<Rightarrow>
                                                  (st',
                                                   [Emission ''upvote''
                                                      (UpvoteMsg duid did (scrub_uid suid) score)
                                                      (Some ''community'')],
                                                   None))
                                      | _ \<Rightarrow> (st, [], Some AttributeError)))))
                  | Some _ \<Rightarrow> (st, [], Some TypeError))
             | Some _ \<Rightarrow> (st, [], Some TypeError)))"

subsection \<open>Replaying the structs\<close>

text \<open>
  \<^verbatim>\<open>
  def emit_structs():
      for uid in [name for name in os.listdir(STRUCTS_FOLDER) if os.path.isdir(...)]:
          uid_folder = os.path.join(STRUCTS_FOLDER, uid)
          for fname in os.listdir(uid_folder):
              path = os.path.join(uid_folder, fname)
              with open(path, 'r') as f:
                  lines = f.readlines()
                  if (len(lines) != 3):
                      continue
                  upvotes = json.loads(lines[0].strip())
                  timestamp = json.loads(lines[1].strip())
                  struct = json.loads(lines[2].strip())
                  score = score_struct(timestamp, len(upvotes))
                  message = {"uid": scrub_uid(uid), "id": fname[:-5], "score": score,
                             "upvotes": upvotes, "struct": struct}
                  emit("struct", message)
  \<close>
  The body of the inner loop for one file: nothing for a skipped file, one emission, or
  the exception that ends the replay.
\<close>

definition emit_struct_file ::
  "(string \<Rightarrow> error + json) \<Rightarrow> int \<Rightarrow> string \<Rightarrow> string \<Rightarrow> string \<Rightarrow> error + emission list" where
  "emit_struct_file loads now uid fname content =
     (let lines = readlines content
      in if length lines \<noteq> 3 then Inr []
         else
           (case loads (strip (lines ! 0)) of
              Inl e \<Rightarrow> Inl e
            | Inr upvotes \<Rightarrow>
                (case loads (strip (lines ! 1)) of
                   Inl e \<Rightarrow> Inl e
                 | Inr timestamp \<Rightarrow>
                     (case loads (strip (lines ! 2)) of
                        Inl e \<Rightarrow> Inl e
                      | Inr struct \<Rightarrow>
                          (case py_len upvotes of
                             Inl e \<Rightarrow> Inl e
                           | Inr n \<Rightarrow>
                               (case score_struct now timestamp n of
                                  Inl e \<Rightarrow> Inl e
                                | Inr score \<Rightarrow>
                                    Inr [Emission ''struct''
                                           (StructMsg (scrub_uid uid) (drop_ext fname) score upvotes struct)
                                           None]))))))"

fun emit_files ::
  "(string \<Rightarrow> error + json) \<Rightarrow> int \<Rightarrow> string \<Rightarrow> folder \<Rightarrow> emission list \<times> error option" where
  "emit_files loads now uid [] = ([], None)"
| "emit_files loads now uid ((fname, content) # rest) =
     (case emit_struct_file loads now uid fname content of
        Inl e \<Rightarrow> ([], Some e)
      | Inr ms \<Rightarrow>
          (case emit_files loads now uid rest of (ms', err) \<Rightarrow> (ms @ ms', err)))"

fun emit_folders ::
  "(string \<Rightarrow> error + json) \<Rightarrow> int \<Rightarrow> (string \<times> folder) list \<Rightarrow> emission list \<times> error option" where
  "emit_folders loads now [] = ([], None)"
| "emit_folders loads now ((uid, files) # rest) =
     (case emit_files loads now uid files of
        (ms, Some e) \<Rightarrow> (ms, Some e)
      | (ms, None) \<Rightarrow>
          (case emit_folders loads now rest of (ms', err) \<Rightarrow> (ms @ ms', err)))"

definition emit_structs ::
  "(string \<Rightarrow> error + json) \<Rightarrow> int \<Rightarrow> server \<Rightarrow> emission list \<times> error option" where
  "emit_structs loads now st = emit_folders loads now (structs st)"



section \<open>Properties\<close>

subsection \<open>The score\<close>

text \<open>
  Where the submission lies less than two intervals (3600 seconds) ahead of the clock,
  the base of the power is positive and the score is the quotient of the formula.
\<close>

lemma score_struct_pos_base:
  assumes "ts < now + 3600"
  shows "score_struct now (JInt ts) n =
           Inr ((real n + 1) / ((real_of_int (now - ts) / 1800 + 2) powr 1.4))"
proof -
  have eq: "real_of_int now / 1800 - real_of_int ts / 1800 + 2 = real_of_int (now - ts) / 1800 + 2"
    by (simp add: diff_divide_distrib)
  have "real_of_int (now - ts) > - 3600" using assms by linarith
  then have pos: "0 < real_of_int (now - ts) / 1800 + 2" by (simp add: field_simps)
  then have nz: "(real_of_int (now - ts) / 1800 + 2) powr 1.4 \<noteq> 0" by simp
  show ?thesis
    unfolding score_struct_def Let_def GRAVITY_def TIME_INTERVAL_def
    using pos nz by (simp add: eq)
qed

lemma score_base_pos:
  assumes "ts < now + 3600"
  shows "0 < real_of_int (now - ts) / 1800 + 2"
proof -
  have "real_of_int (now - ts) > - 3600" using assms by linarith
  then show ?thesis by (simp add: field_simps)
qed

text \<open>
  C5, as stated, at a submission exactly two intervals ahead of the clock: the base is
  \<open>0\<close>, \<^verbatim>\<open>0.0 ** 1.4\<close> is \<^verbatim>\<open>0.0\<close>, and the division raises instead of returning the
  value of the formula.
\<close>

theorem score_formula_counterexample:
  "score_struct 0 (JInt 3600) 0 = Inl ZeroDivisionError \<and>
   score_struct 0 (JInt 3600) 0 \<noteq>
     Inr ((real 0 + 1) / ((real_of_int (0 - 3600) / 1800 + 2) powr 1.4))"
  by (simp add: score_struct_def GRAVITY_def TIME_INTERVAL_def)

text \<open>
  C5 (amended): for every upvote count, and every submission timestamp and current time
  with the submission less than 3600 seconds ahead of the current time, the score is
  exactly \<open>(upvoteCount + 1) / ((elapsedIntervals + 2) ^ 1.4)\<close> with
  \<open>elapsedIntervals = (now - submittedAt) / 1800\<close>; a record shared at the current
  instant with no upvotes scores \<open>1 / 2 ^ 1.4\<close>.
\<close>

theorem score_formula:
  "(ts < now + 3600 \<longrightarrow>
      score_struct now (JInt ts) n =
        Inr ((real n + 1) / ((real_of_int (now - ts) / 1800 + 2) powr 1.4)))
   \<and> score_struct t (JInt t) 0 = Inr (1 / 2 powr 1.4)"
proof
  show "ts < now + 3600 \<longrightarrow>
      score_struct now (JInt ts) n =
        Inr ((real n + 1) / ((real_of_int (now - ts) / 1800 + 2) powr 1.4))"
    by (simp add: score_struct_pos_base)
  show "score_struct t (JInt t) 0 = Inr (1 / 2 powr 1.4)"
    using score_struct_pos_base [of t t 0] by simp
qed

theorem score_formula_witness:
  "score_struct 3600 (JInt 0) 1 = Inr (2 / 4 powr 1.4)
   \<and> score_struct 0 (JInt 0) 0 = Inr (1 / 2 powr 1.4)"
  using score_formula [of 0 3600 1 0] by simp

text \<open>
  C6: for a fixed upvote count the score is strictly decreasing as the time elapsed since
  the submission grows, and for a fixed elapsed time it is strictly increasing in the
  upvote count. Both hold wherever the score is a number, which includes every
  non-negative elapsed time.
\<close>

theorem score_monotone:
  "(ts < now1 + 3600 \<and> now1 < now2 \<longrightarrow>
      (\<exists>s1 s2. score_struct now1 (JInt ts) n = Inr s1 \<and>
               score_struct now2 (JInt ts) n = Inr s2 \<and> s2 < s1))
   \<and> (ts < now + 3600 \<and> now' - ts' = now - ts \<and> m < k \<longrightarrow>
      (\<exists>s1 s2. score_struct now (JInt ts) m = Inr s1 \<and>
               score_struct now' (JInt ts') k = Inr s2 \<and> s1 < s2))"
proof (intro conjI impI)
  assume a: "ts < now1 + 3600 \<and> now1 < now2"
  let ?b1 = "real_of_int (now1 - ts) / 1800 + 2"
  let ?b2 = "real_of_int (now2 - ts) / 1800 + 2"
  have p1: "0 < ?b1" using a by (intro score_base_pos) simp
  have lt: "?b1 < ?b2" using a by (simp add: divide_strict_right_mono)
  have pw: "?b1 powr 1.4 < ?b2 powr 1.4"
    using p1 lt by (intro powr_less_mono2) simp_all
  have pp: "0 < ?b1 powr 1.4" using p1 by simp
  have pp2: "0 < ?b2 powr 1.4" using pp pw by linarith
  have "0 < ?b2 powr 1.4 * ?b1 powr 1.4" by (rule mult_pos_pos [OF pp2 pp])
  then have "(real n + 1) / ?b2 powr 1.4 < (real n + 1) / ?b1 powr 1.4"
    using pw by (intro divide_strict_left_mono) linarith+
  moreover have "score_struct now1 (JInt ts) n = Inr ((real n + 1) / ?b1 powr 1.4)"
    using a by (intro score_struct_pos_base) simp
  moreover have "score_struct now2 (JInt ts) n = Inr ((real n + 1) / ?b2 powr 1.4)"
    using a by (intro score_struct_pos_base) simp
  ultimately show "\<exists>s1 s2. score_struct now1 (JInt ts) n = Inr s1 \<and>
               score_struct now2 (JInt ts) n = Inr s2 \<and> s2 < s1"
    by simp
next
  assume a: "ts < now + 3600 \<and> now' - ts' = now - ts \<and> m < k"
  let ?b = "real_of_int (now - ts) / 1800 + 2"
  have p1: "0 < ?b" using a by (intro score_base_pos) simp
  have pp: "0 < ?b powr 1.4" using p1 by simp
  have "(real m + 1) / ?b powr 1.4 < (real k + 1) / ?b powr 1.4"
    using pp a by (simp add: divide_strict_right_mono)
  moreover have "score_struct now (JInt ts) m = Inr ((real m + 1) / ?b powr 1.4)"
    using a by (intro score_struct_pos_base) simp
  moreover have "score_struct now' (JInt ts') k = Inr ((real k + 1) / ?b powr 1.4)"
    using a score_struct_pos_base [of ts' now' k] by simp
  ultimately show "\<exists>s1 s2. score_struct now (JInt ts) m = Inr s1 \<and>
               score_struct now' (JInt ts') k = Inr s2 \<and> s1 < s2"
    by simp
qed

theorem score_monotone_witness:
  "(\<exists>s1 s2. score_struct 0 (JInt 0) 0 = Inr s1 \<and>
            score_struct 1800 (JInt 0) 0 = Inr s2 \<and> s2 < s1)
   \<and> (\<exists>s1 s2. score_struct 1800 (JInt 0) 0 = Inr s1 \<and>
            score_struct 3600 (JInt 1800) 1 = Inr s2 \<and> s1 < s2)"
  using score_monotone [of 0 0 1800 0 1800 3600 1800 0 1] by simp

text \<open>
  C7, as stated, at a submission exactly two intervals in the future
  (\<open>elapsedIntervals = - 2\<close>): the score function raises ZeroDivisionError.
\<close>

theorem score_future_counterexample:
  "(1800000000 :: int) < 1800003600 \<and>
   score_struct 1800000000 (JInt 1800003600) 3 = Inl ZeroDivisionError"
  by (simp add: score_struct_def GRAVITY_def TIME_INTERVAL_def)

text \<open>
  C7 (amended): for every input where the submission timestamp lies in the future of the
  current time by less than two intervals (3600 seconds), the score function raises no
  error and returns a positive value.
\<close>

theorem score_future:
  assumes "now < ts" and "ts < now + 3600"
  shows "\<exists>s. score_struct now (JInt ts) n = Inr s \<and> 0 < s"
proof -
  have "0 < real_of_int (now - ts) / 1800 + 2"
    using assms(2) by (rule score_base_pos)
  then have "0 < (real n + 1) / ((real_of_int (now - ts) / 1800 + 2) powr 1.4)"
    by simp
  then show ?thesis
    using score_struct_pos_base [OF assms(2), of n] by simp
qed

theorem score_future_witness:
  "(0 :: int) < 1800 \<and> (1800 :: int) < 0 + 3600 \<and>
   (\<exists>s. score_struct 0 (JInt 1800) 0 = Inr s \<and> 0 < s)"
proof -
  have a: "(0 :: int) < 1800" by simp
  have b: "(1800 :: int) < 0 + 3600" by simp
  show ?thesis using a b score_future [OF a b, of 0] by simp
qed


subsection \<open>The reverse scan of a log\<close>

text \<open>Splitting at newlines, and how it distributes over a concatenation.\<close>


lemma split_nl_ne [simp]: "split_nl s \<noteq> []"
  by (cases s) auto

lemma hd_tl_split_nl [simp]: "hd (split_nl s) # tl (split_nl s) = split_nl s"
  by simp

lemma split_nl_no_nl: "NL \<notin> set s \<Longrightarrow> split_nl s = [s]"
  by (induction s) auto

lemma split_nl_single: "split_nl s = [x] \<Longrightarrow> x = s"
proof (induction s arbitrary: x)
  case Nil
  then show ?case by simp
next
  case (Cons c cs)
  show ?case
  proof (cases "c = NL")
    case True
    with Cons.prems show ?thesis by simp
  next
    case False
    with Cons.prems have t: "tl (split_nl cs) = []" and x: "x = c # hd (split_nl cs)" by auto
    from t have "split_nl cs = [hd (split_nl cs)]"
      by (metis hd_tl_split_nl)
    then have "hd (split_nl cs) = cs" by (rule Cons.IH)
    with x show ?thesis by simp
  qed
qed

lemma split_nl_append:
  "split_nl (a @ b) = butlast (split_nl a) @ [last (split_nl a) @ hd (split_nl b)] @ tl (split_nl b)"
proof (induction a)
  case Nil
  then show ?case by simp
next
  case (Cons c a)
  show ?case
  proof (cases "c = NL")
    case True
    with Cons show ?thesis by simp
  next
    case False
    show ?thesis
    proof (cases "tl (split_nl a) = []")
      case True
      then have sa: "split_nl a = [hd (split_nl a)]" by (metis hd_tl_split_nl)
      have "butlast (split_nl a) = []" "last (split_nl a) = hd (split_nl a)"
        by (subst sa, simp)+
      with Cons False True show ?thesis by simp
    next
      case F2: False
      then have bl: "butlast (split_nl a) \<noteq> []"
        by (metis butlast.simps(2) hd_tl_split_nl list.distinct(1))
      have "butlast (split_nl a) = hd (split_nl a) # butlast (tl (split_nl a))"
        by (metis F2 butlast.simps(2) hd_tl_split_nl)
      moreover have "last (split_nl a) = last (tl (split_nl a))"
        by (metis F2 hd_tl_split_nl last.simps)
      ultimately show ?thesis using Cons False F2 by simp
    qed
  qed
qed

lemma last_split_nl: "a \<noteq> [] \<Longrightarrow> (last (split_nl a) = []) = (last a = NL)"
proof (induction a)
  case Nil
  then show ?case by simp
next
  case (Cons c a)
  show ?case
  proof (cases "a = []")
    case True
    then show ?thesis by simp
  next
    case False
    with Cons have IH: "(last (split_nl a) = []) = (last a = NL)" by simp
    show ?thesis
    proof (cases "tl (split_nl a) = []")
      case True
      then have sa: "split_nl a = [hd (split_nl a)]" by (metis hd_tl_split_nl)
      then have "hd (split_nl a) = a" by (rule split_nl_single)
      with sa have "split_nl a = [a]" by simp
      with IH False show ?thesis by simp
    next
      case F2: False
      have "last (split_nl a) = last (tl (split_nl a))"
        by (metis F2 hd_tl_split_nl last.simps)
      with IH False F2 show ?thesis by simp
    qed
  qed
qed

lemma split_nl_entry: "NL \<notin> set e \<Longrightarrow> split_nl (e @ NL # r) = e # split_nl r"
  by (induction e) auto

lemma split_nl_log_file:
  "\<forall>e\<in>set es. NL \<notin> set e \<Longrightarrow> split_nl (log_file es) = es @ [[]]"
  by (induction es) (auto simp: log_file_def split_nl_entry)

lemma log_file_empty: "log_file es = [] \<Longrightarrow> es = []"
  by (cases es) (auto simp: log_file_def)

lemma last_log_file: "es \<noteq> [] \<Longrightarrow> last (log_file es) = NL"
  by (induction es) (auto simp: log_file_def)


lemma hd_split_suffix_nonempty:
  assumes es: "\<forall>e\<in>set es. e \<noteq> [] \<and> NL \<notin> set e"
    and eq: "log_file es = Q @ S" and Q: "Q \<noteq> []" "last Q = NL" and S: "S \<noteq> []"
  shows "hd (split_nl S) \<noteq> []"
proof -
  have esne: "es \<noteq> []" using eq S by (auto simp: log_file_def)
  have "last (split_nl Q) = []" using Q by (simp add: last_split_nl)
  then have "split_nl (Q @ S) = butlast (split_nl Q) @ split_nl S"
    by (simp add: split_nl_append)
  moreover have "split_nl (Q @ S) = es @ [[]]"
    using es eq split_nl_log_file [of es] by simp
  ultimately have e1: "es @ [[]] = butlast (split_nl Q) @ split_nl S" by simp
  have "last S = NL" using last_log_file [OF esne] eq S by simp
  then have lS: "last (split_nl S) = []" using S by (simp add: last_split_nl)
  have "tl (split_nl S) \<noteq> []"
  proof
    assume "tl (split_nl S) = []"
    then have "split_nl S = [hd (split_nl S)]" by (metis hd_tl_split_nl)
    then have "split_nl S = [S]" using split_nl_single by metis
    with lS S show False by simp
  qed
  then have bl: "butlast (split_nl S) = hd (split_nl S) # butlast (tl (split_nl S))"
    by (metis butlast.simps(2) hd_tl_split_nl)
  have "split_nl S = butlast (split_nl S) @ [[]]"
    using lS by (metis append_butlast_last_id split_nl_ne)
  with e1 have "es @ [[]] = (butlast (split_nl Q) @ butlast (split_nl S)) @ [[]]" by simp
  then have "es = butlast (split_nl Q) @ butlast (split_nl S)" by simp
  with bl have "hd (split_nl S) \<in> set es" by simp
  with es show ?thesis by blast
qed

lemma step_open:
  assumes "last B \<noteq> NL" "B \<noteq> []"
  shows "hd (split_nl (B @ S)) = hd (butlast (split_nl B) @ [last (split_nl B) @ hd (split_nl S)])
       \<and> tl (split_nl (B @ S)) = tl (butlast (split_nl B) @ [last (split_nl B) @ hd (split_nl S)]) @ tl (split_nl S)"
proof -
  have "split_nl (B @ S) = (butlast (split_nl B) @ [last (split_nl B) @ hd (split_nl S)]) @ tl (split_nl S)"
    by (simp add: split_nl_append)
  moreover have "butlast (split_nl B) @ [last (split_nl B) @ hd (split_nl S)] \<noteq> []" by simp
  ultimately show ?thesis by (metis hd_append2 tl_append2)
qed

lemma step_closed:
  assumes "last B = NL" "B \<noteq> []"
  shows "hd (split_nl (B @ S)) = hd (split_nl B)
       \<and> tl (split_nl (B @ S)) = butlast (tl (split_nl B)) @ split_nl S
       \<and> filter (\<lambda>l. l \<noteq> []) (rev (tl (split_nl B))) = filter (\<lambda>l. l \<noteq> []) (rev (butlast (tl (split_nl B))))"
proof -
  have l: "last (split_nl B) = []" using assms by (simp add: last_split_nl)
  have t: "tl (split_nl B) \<noteq> []"
  proof
    assume "tl (split_nl B) = []"
    then have "split_nl B = [hd (split_nl B)]" by (metis hd_tl_split_nl)
    then have "split_nl B = [B]" using split_nl_single by metis
    with l assms show False by simp
  qed
  then have bl: "butlast (split_nl B) = hd (split_nl B) # butlast (tl (split_nl B))"
    by (metis butlast.simps(2) hd_tl_split_nl)
  have "split_nl (B @ S) = butlast (split_nl B) @ split_nl S"
    using l by (simp add: split_nl_append)
  with bl have a: "split_nl (B @ S) = hd (split_nl B) # butlast (tl (split_nl B)) @ split_nl S"
    by simp
  have "last (tl (split_nl B)) = []" using l t by (metis hd_tl_split_nl last.simps)
  then have "tl (split_nl B) = butlast (tl (split_nl B)) @ [[]]"
    using t by (metis append_butlast_last_id)
  then have "filter (\<lambda>l. l \<noteq> []) (rev (tl (split_nl B))) =
      filter (\<lambda>l. l \<noteq> []) (rev (butlast (tl (split_nl B)) @ [[]]))" by simp
  then have c: "filter (\<lambda>l. l \<noteq> []) (rev (tl (split_nl B))) =
      filter (\<lambda>l. l \<noteq> []) (rev (butlast (tl (split_nl B))))" by simp
  from a c show ?thesis by simp
qed

lemma buffer_facts:
  assumes k: "0 < k" and r: "0 < r" and off: "int offset = int (length data) - r"
  shows "take (nat (min r (int k))) (drop (length data - min (length data) (offset + k)) data) \<noteq> []"
    and "take (nat (min r (int k))) (drop (length data - min (length data) (offset + k)) data)
           @ drop (length data - offset) data
         = drop (length data - min (length data) (offset + k)) data"
proof -
  define N where "N = length data"
  define m where "m = nat (min r (int k))"
  define d where "d = N - min N (offset + k)"
  have oN: "offset < N" using r off N_def by linarith
  have m: "m = min (N - offset) k" using off oN N_def m_def by (auto simp: min_def)
  have mpos: "0 < m" using m k oN by simp
  have dm: "d + m = N - offset" using m oN d_def by (auto simp: min_def)
  have "length (drop d data) = offset + m" using dm oN N_def by simp
  then have "drop d data \<noteq> []" using mpos by auto
  then have ne: "take m (drop d data) \<noteq> []" using mpos by (simp add: take_eq_Nil)
  have "drop m (drop d data) = drop (N - offset) data"
    using dm by (simp add: add.commute)
  then have ap: "take m (drop d data) @ drop (N - offset) data = drop d data"
    by (metis append_take_drop_id)
  show "take (nat (min r (int k))) (drop (length data - min (length data) (offset + k)) data) \<noteq> []"
    using ne by (simp add: m_def d_def N_def)
  show "take (nat (min r (int k))) (drop (length data - min (length data) (offset + k)) data)
           @ drop (length data - offset) data
         = drop (length data - min (length data) (offset + k)) data"
    using ap by (simp add: m_def d_def N_def)
qed

lemma take_filter_rev:
  "take n (filter P (rev es)) = rev (drop (length (filter P es) - n) (filter P es))"
  by (simp add: rev_filter [symmetric] take_rev)


lemma rr_loop_log_file:
  assumes k: "0 < k" and es: "\<forall>e\<in>set es. e \<noteq> [] \<and> NL \<notin> set e"
  shows "offset \<le> length (log_file es) \<Longrightarrow>
    (0 < r \<longrightarrow> int offset = int (length (log_file es)) - r) \<Longrightarrow>
    (r \<le> 0 \<longrightarrow> offset = length (log_file es)) \<Longrightarrow>
    (offset = 0 \<and> seg = None \<and> out = []) \<or>
    (0 < offset \<and>
     seg = Some (hd (split_nl (drop (length (log_file es) - offset) (log_file es)))) \<and>
     out = filter (\<lambda>l. l \<noteq> [])
             (rev (tl (split_nl (drop (length (log_file es) - offset) (log_file es)))))) \<Longrightarrow>
    rr_loop (log_file es) k seg offset r out = Inr (rev es)"
proof (induction "nat r" arbitrary: seg offset r out rule: less_induct)
  case less
  define data where "data = log_file es"
  define N where "N = length data"
  define S where "S = drop (N - offset) data"
  note prems = less.prems [folded data_def, folded N_def, folded S_def]
  have ne_es: "filter (\<lambda>l. l \<noteq> []) es = es" using es by (simp add: filter_id_conv)
  show ?case
  proof (cases "0 < r")
    case False
    then have offN: "offset = N" using prems(3) by simp
    then have SS: "S = data" by (simp add: S_def)
    have unf: "rr_loop data k seg offset r out =
        Inr (out @ (case seg of None \<Rightarrow> [] | Some s \<Rightarrow> [s]))"
      using False by (subst rr_loop.simps) simp
    show ?thesis
    proof (cases "offset = 0")
      case True
      then have "data = []" using offN N_def by simp
      then have "es = []" using log_file_empty data_def by simp
      moreover have "seg = None \<and> out = []" using prems(4) True by simp
      ultimately show ?thesis using unf data_def by simp
    next
      case F: False
      then have sg: "seg = Some (hd (split_nl data))"
        and ou: "out = filter (\<lambda>l. l \<noteq> []) (rev (tl (split_nl data)))"
        using prems(4) SS by simp_all
      have "data \<noteq> []" using F offN N_def by auto
      then have "es \<noteq> []" using data_def by (auto simp: log_file_def)
      then obtain e es' where ee: "es = e # es'" by (cases es) auto
      have sp: "split_nl data = es @ [[]]"
        using es split_nl_log_file [of es] data_def by simp
      have "filter (\<lambda>l. l \<noteq> []) (rev es') = rev es'"
        using es ee by (simp add: filter_id_conv)
      then have "out @ [hd (split_nl data)] = rev es"
        using ou sp ee by simp
      then show ?thesis using unf sg data_def by simp
    qed
  next
    case True
    define o' where "o' = min N (offset + k)"
    define B where "B = take (nat (min r (int k))) (drop (N - o') data)"
    define r' where "r' = r - int k"
    define S' where "S' = drop (N - o') data"
    have off: "int offset = int N - r" using prems(2) True by simp
    have Bne: "B \<noteq> []"
      using buffer_facts(1) [OF k True, of offset data] off
      by (simp add: B_def o'_def N_def)
    have BS: "B @ S = S'"
      using buffer_facts(2) [OF k True, of offset data] off
      by (simp add: B_def o'_def N_def S_def S'_def)
    have o'N: "o' \<le> N" by (simp add: o'_def)
    have o'pos: "0 < o'" using k True off by (simp add: o'_def)
    have r1: "0 < r' \<longrightarrow> int o' = int N - r'"
      using off by (auto simp: o'_def r'_def min_def)
    have r2: "r' \<le> 0 \<longrightarrow> o' = N"
      using off True by (auto simp: o'_def r'_def min_def)
    have dec: "nat r' < nat r" using k True by (simp add: r'_def)
    have mp: "\<not> min r (int k) \<le> 0" using k True by simp
    have np: "\<not> N \<le> N - o'" using o'pos o'N by linarith
    have IH: "\<And>sg ou. sg = Some (hd (split_nl S')) \<Longrightarrow>
        ou = filter (\<lambda>l. l \<noteq> []) (rev (tl (split_nl S'))) \<Longrightarrow>
        rr_loop data k sg o' r' ou = Inr (rev es)"
      unfolding data_def
      by (rule less.hyps [OF dec])
         (use o'N r1 r2 o'pos in \<open>simp_all add: S'_def N_def data_def\<close>)
    show ?thesis
    proof (cases seg)
      case None
      then have "offset = 0" "out = []" using prems(4) by auto
      then have "S = []" by (simp add: S_def N_def)
      then have S'B: "S' = B" using BS by simp
      have "rr_loop data k seg offset r out =
          rr_loop data k (Some (hd (split_nl B))) o' r'
            (filter (\<lambda>l. l \<noteq> []) (rev (tl (split_nl B))))"
        using True None \<open>out = []\<close>
        by (subst rr_loop.simps) (simp add: Let_def B_def o'_def r'_def N_def)
      also have "\<dots> = Inr (rev es)" by (rule IH) (simp_all add: S'B)
      finally show ?thesis by (simp add: data_def)
    next
      case (Some s)
      then have offpos: "0 < offset" and sg: "s = hd (split_nl S)"
        and ou: "out = filter (\<lambda>l. l \<noteq> []) (rev (tl (split_nl S)))"
        using prems(4) by auto
      have Sne: "S \<noteq> []" using offpos prems(1) by (simp add: S_def N_def)
      show ?thesis
      proof (cases "last B = NL")
        case F: False
        define lines' where "lines' = butlast (split_nl B) @ [last (split_nl B) @ s]"
        have "rr_loop data k seg offset r out =
            rr_loop data k (Some (hd lines')) o' r'
              (out @ filter (\<lambda>l. l \<noteq> []) (rev (tl lines')))"
          using True Some Bne F mp np
          by (subst rr_loop.simps)
             (simp add: Let_def B_def [symmetric] o'_def [symmetric] r'_def [symmetric] N_def [symmetric] lines'_def)
        also have "\<dots> = Inr (rev es)"
        proof (rule IH)
          show "Some (hd lines') = Some (hd (split_nl S'))"
            using step_open [OF F Bne, of S] BS sg by (simp add: lines'_def)
          show "out @ filter (\<lambda>l. l \<noteq> []) (rev (tl lines')) =
              filter (\<lambda>l. l \<noteq> []) (rev (tl (split_nl S')))"
            using step_open [OF F Bne, of S] BS sg ou by (simp add: lines'_def)
        qed
        finally show ?thesis by (simp add: data_def)
      next
        case T: True
        have "rr_loop data k seg offset r out =
            rr_loop data k (Some (hd (split_nl B))) o' r'
              (out @ [s] @ filter (\<lambda>l. l \<noteq> []) (rev (tl (split_nl B))))"
          using True Some Bne T mp np
          by (subst rr_loop.simps)
             (simp add: Let_def B_def [symmetric] o'_def [symmetric] r'_def [symmetric] N_def [symmetric])
        also have "\<dots> = Inr (rev es)"
        proof (rule IH)
          have dataeq: "log_file es = (take (N - o') data @ B) @ S"
            using BS by (simp add: S'_def data_def)
          have sne: "s \<noteq> []"
            unfolding sg
            by (rule hd_split_suffix_nonempty [OF es dataeq]) (use Bne T Sne in simp_all)
          show "Some (hd (split_nl B)) = Some (hd (split_nl S'))"
            using step_closed [OF T Bne, of S] BS by simp
          have "tl (split_nl S') = butlast (tl (split_nl B)) @ s # tl (split_nl S)"
            using step_closed [OF T Bne, of S] BS sg
            by (metis hd_tl_split_nl)
          then show "out @ [s] @ filter (\<lambda>l. l \<noteq> []) (rev (tl (split_nl B))) =
              filter (\<lambda>l. l \<noteq> []) (rev (tl (split_nl S')))"
            using step_closed [OF T Bne, of S] ou sne by simp
        qed
        finally show ?thesis by (simp add: data_def)
      qed
    qed
  qed
qed


text \<open>
  C2: for a log of newline-terminated entries (each entry one non-empty line, as
  \<^verbatim>\<open>json.dump\<close> writes it) and every positive buffer size, the reverse scan yields
  exactly the entries in reverse order, whatever the position of the buffer boundaries;
  hence the first \<open>maxCount\<close> yielded entries that match a predicate are the last
  \<open>maxCount\<close> matching entries of the log read forward, most recent first.
\<close>

theorem reverse_readline_recentEntries:
  assumes "0 < buf_size" and "\<forall>e\<in>set es. e \<noteq> [] \<and> NL \<notin> set e"
  shows "reverse_readline (log_file es) buf_size = Inr (rev es) \<and>
         (\<exists>ls. reverse_readline (log_file es) buf_size = Inr ls \<and>
               take maxCount (filter P ls) = recentEntries_spec P maxCount es)"
proof -
  have "reverse_readline (log_file es) buf_size = Inr (rev es)"
    unfolding reverse_readline_def
    by (rule rr_loop_log_file [OF assms]) simp_all
  then show ?thesis
    by (simp add: recentEntries_spec_def take_filter_rev)
qed

theorem reverse_readline_recentEntries_witness:
  "reverse_readline (log_file [''ab'', ''c'', ''def'']) 2 = Inr [''def'', ''c'', ''ab''] \<and>
   (\<exists>ls. reverse_readline (log_file [''ab'', ''c'', ''def'']) 2 = Inr ls \<and>
      take 2 (filter (\<lambda>l. 1 < length l) ls) = [''def'', ''ab''])"
  using reverse_readline_recentEntries [of 2 "[''ab'', ''c'', ''def'']" 2 "\<lambda>l. 1 < length l"]
  by (simp add: recentEntries_spec_def)

subsection \<open>Log requests without a type\<close>

text \<open>
  C8: a log request whose data has no \<^verbatim>\<open>type\<close> field changes nothing and emits
  nothing: the handler returns before \<^verbatim>\<open>log\<close> is called, so no activity log is
  appended to and no broadcast is sent.
\<close>

theorem handle_log_without_type:
  assumes "''type'' \<notin> fst ` set data"
  shows "handle_log dumps now st data = (st, [], None)"
proof -
  have "map_of data ''type'' = None" using assms by (simp add: map_of_eq_None_iff)
  then show ?thesis by (simp add: handle_log_def)
qed

theorem handle_log_without_type_witness:
  "handle_log (\<lambda>j. ''{}'') 7 \<lparr>structs = [], logs = [(''abc.json'', ''x'')], session_uid = Some ''abc''\<rparr>
       [(''msg'', JObject [(''query'', JString ''add red'')])]
     = (\<lparr>structs = [], logs = [(''abc.json'', ''x'')], session_uid = Some ''abc''\<rparr>, [], None)"
  using handle_log_without_type [of "[(''msg'', JObject [(''query'', JString ''add red'')])]"
      "\<lambda>j. ''{}''" 7 "\<lparr>structs = [], logs = [(''abc.json'', ''x'')], session_uid = Some ''abc''\<rparr>"]
  by simp

subsection \<open>Upvotes\<close>



text \<open>
  C1: a second upvote by a voter who is already in the record's upvoters list. The stored
  record is not touched, but the handler does not get as far as the broadcast: the
  variable \<^verbatim>\<open>timestamp\<close> is assigned only where the voter is added, so computing the
  score raises UnboundLocalError and no upvote event is sent. The code departs here
  from the claim, which wants a success with a score recomputed from the stored timestamp.
\<close>

theorem upvote_again_raises:
  assumes "session_uid st = Some voter" and "voter \<noteq> []"
    and "map_of data ''uid'' = Some (JString owner)"
    and "map_of data ''id'' = Some (JString localId)"
    and "struct_file st owner (localId @ ''.json'') = Some content"
    and "loads (strip (fst (readline content))) = Inr (JArray ups)"
    and "JString voter \<in> set ups"
  shows "upvote loads dumps now st data = (st, [], Some UnboundLocalError)"
  using assms by (simp add: upvote_def)

theorem upvote_again_raises_witness:
  \<open>upvote (\<lambda>s. if s = ''["bob"]'' then Inr (JArray [JString ''bob'']) else Inl ValueError)
      (\<lambda>j. ''[]'') 1478003600
      \<lparr>structs = [(''alice'', [(''1.json'', ''["bob"]'' @ [NL] @ ''1478000000'' @ [NL] @ ''{}'')])],
       logs = [], session_uid = Some ''bob''\<rparr>
      [(''uid'', JString ''alice''), (''id'', JString ''1'')]
    = (\<lparr>structs = [(''alice'', [(''1.json'', ''["bob"]'' @ [NL] @ ''1478000000'' @ [NL] @ ''{}'')])],
        logs = [], session_uid = Some ''bob''\<rparr>, [], Some UnboundLocalError)\<close>
  using upvote_again_raises [of
      \<open>\<lparr>structs = [(''alice'', [(''1.json'', ''["bob"]'' @ [NL] @ ''1478000000'' @ [NL] @ ''{}'')])],
       logs = [], session_uid = Some ''bob''\<rparr>\<close>
      "''bob''" "[(''uid'', JString ''alice''), (''id'', JString ''1'')]" "''alice''" "''1''"
      \<open>''["bob"]'' @ [NL] @ ''1478000000'' @ [NL] @ ''{}''\<close>
      \<open>\<lambda>s. if s = ''["bob"]'' then Inr (JArray [JString ''bob'']) else Inl ValueError\<close>
      "[JString ''bob'']" "\<lambda>j. ''[]''" 1478003600]
  by (simp add: struct_file_def readline_def strip_def is_space_def)

text \<open>
  The other path, for comparison: a voter who is not yet in the list is appended, the
  record is rewritten with the timestamp and payload lines the reader had fetched, and the
  upvote event carries the score computed from the stored timestamp line and the new
  count. A record of at most 8192 characters is fetched whole.
\<close>

lemma readline_drop: "snd (readline s) = drop (length (fst (readline s))) s"
proof (cases "dropWhile (\<lambda>c. c \<noteq> NL) s")
  case Nil
  then have "readline s = (s, [])" by (simp only: readline_def list.case)
  then show ?thesis by simp
next
  case (Cons c rest)
  have "takeWhile (\<lambda>c. c \<noteq> NL) s @ dropWhile (\<lambda>c. c \<noteq> NL) s = s"
    by (rule takeWhile_dropWhile_id)
  then have eq: "s = takeWhile (\<lambda>c. c \<noteq> NL) s @ c # rest" using Cons by simp
  have "drop (Suc (length (takeWhile (\<lambda>c. c \<noteq> NL) s))) (takeWhile (\<lambda>c. c \<noteq> NL) s @ c # rest) = rest"
    by simp
  then have "drop (Suc (length (takeWhile (\<lambda>c. c \<noteq> NL) s))) s = rest"
    using eq by simp
  moreover have "readline s = (takeWhile (\<lambda>c. c \<noteq> NL) s @ [NL], rest)"
    using Cons by (simp only: readline_def list.case)
  ultimately show ?thesis by simp
qed

lemma readline_nonempty:
  assumes "s \<noteq> []"
  shows "fst (readline s) \<noteq> []"
proof (cases "dropWhile (\<lambda>c. c \<noteq> NL) s")
  case Nil
  then have "readline s = (s, [])" by (simp only: readline_def list.case)
  then show ?thesis using assms by simp
next
  case (Cons c rest)
  then have "readline s = (takeWhile (\<lambda>c. c \<noteq> NL) s @ [NL], rest)"
    by (simp only: readline_def list.case)
  then show ?thesis by simp
qed

lemma fetched_small:
  assumes le: "length content \<le> READ_CHUNK"
  shows "fetched content = content"
proof (cases "content = []")
  case True
  then show ?thesis by (simp add: fetched_def)
next
  case False
  define n where "n = length (fst (readline content))"
  define k where "k = (n + READ_CHUNK - 1) div READ_CHUNK"
  have "0 < n" using readline_nonempty [OF False] by (simp add: n_def)
  then have "READ_CHUNK \<le> n + READ_CHUNK - 1" by arith
  then have "READ_CHUNK div READ_CHUNK \<le> k"
    unfolding k_def by (rule div_le_mono)
  moreover have "READ_CHUNK div READ_CHUNK = 1" by (simp add: READ_CHUNK_def)
  ultimately have "1 \<le> k" by simp
  then have "1 * READ_CHUNK \<le> k * READ_CHUNK" by (rule mult_le_mono1)
  then have "READ_CHUNK \<le> k * READ_CHUNK" by (simp only: nat_mult_1)
  with le have "length content \<le> k * READ_CHUNK" by (rule le_trans)
  then have "take (k * READ_CHUNK) content = content" by simp
  then show ?thesis by (simp add: fetched_def Let_def n_def k_def)
qed

lemma upvote_new_voter:
  assumes "session_uid st = Some voter" and "voter \<noteq> []"
    and "map_of data ''uid'' = Some (JString owner)"
    and "map_of data ''id'' = Some (JString localId)"
    and "struct_file st owner (localId @ ''.json'') = Some content"
    and "loads (strip (fst (readline content))) = Inr (JArray ups)"
    and "JString voter \<notin> set ups"
    and "length content \<le> READ_CHUNK"
    and "score_struct now (JString (fst (readline (snd (readline content))))) (length ups + 1)
           = Inr score"
  shows "upvote loads dumps now st data =
           (write_struct st owner (localId @ ''.json'')
              (dumps (JArray (ups @ [JString voter])) @ [NL]
                 @ fst (readline (snd (readline content)))
                 @ fst (readline (snd (readline (snd (readline content)))))),
            [Emission ''upvote'' (UpvoteMsg owner localId (scrub_uid voter) score)
               (Some ''community'')],
            None)"
proof -
  have "drop (length (fst (readline content))) (fetched content) = snd (readline content)"
    using assms(8) by (simp add: fetched_small readline_drop)
  then show ?thesis using assms by (simp add: upvote_def Let_def)
qed

subsection \<open>Local ids of shared structs\<close>

text \<open>Decimal numerals: \<^verbatim>\<open>int(str(n))\<close> gives \<open>n\<close> back.\<close>

lemma is_digit_digit_char: "d < 10 \<Longrightarrow> is_digit (digit_char d)"
  by (simp add: is_digit_def digit_char_def)

lemma digit_val_digit_char: "d < 10 \<Longrightarrow> digit_val (digit_char d) = d"
  by (simp add: digit_val_def digit_char_def)

lemma str_nat_ne: "str_nat n \<noteq> []"
  by (subst str_nat.simps) simp

lemma str_nat_digits: "list_all is_digit (str_nat n)"
proof (induction n rule: str_nat.induct)
  case (1 n)
  show ?case
  proof (cases "n < 10")
    case True
    then show ?thesis by (subst str_nat.simps) (simp add: is_digit_digit_char)
  next
    case False
    with 1 show ?thesis by (subst str_nat.simps) (simp add: is_digit_digit_char)
  qed
qed

lemma foldl_str_nat: "foldl (\<lambda>acc c. 10 * acc + digit_val c) 0 (str_nat n) = n"
proof (induction n rule: str_nat.induct)
  case (1 n)
  show ?case
  proof (cases "n < 10")
    case True
    then show ?thesis by (subst str_nat.simps) (simp add: digit_val_digit_char)
  next
    case False
    with 1 show ?thesis by (subst str_nat.simps) (simp add: digit_val_digit_char)
  qed
qed

lemma int_digits_str_nat: "int_digits (str_nat n) = Inr n"
  by (simp add: int_digits_def str_nat_ne str_nat_digits foldl_str_nat)

lemma is_digit_not_space: "is_digit c \<Longrightarrow> \<not> is_space c"
  by (auto simp: is_digit_def is_space_def)

lemma dropWhile_hd: "s \<noteq> [] \<Longrightarrow> \<not> P (hd s) \<Longrightarrow> dropWhile P s = s"
  by (cases s) auto

lemma strip_digits:
  assumes "list_all is_digit s"
  shows "strip s = s"
proof (cases "s = []")
  case True
  then show ?thesis by (simp add: strip_def)
next
  case False
  then have "hd s \<in> set s" "last s \<in> set s" by simp_all
  then have "is_digit (hd s)" "is_digit (last s)"
    using assms by (simp_all add: list_all_iff)
  then have h: "\<not> is_space (hd s)" and l: "\<not> is_space (hd (rev s))"
    using False by (simp_all add: is_digit_not_space hd_rev)
  have a: "dropWhile is_space s = s" using False h by (rule dropWhile_hd)
  have b: "dropWhile is_space (rev s) = rev s" using False l by (intro dropWhile_hd) simp_all
  show ?thesis by (simp add: strip_def a b)
qed

lemma is_digit_not_sign: "is_digit c \<Longrightarrow> c \<noteq> CHR ''-'' \<and> c \<noteq> CHR ''+''"
  by (auto simp: is_digit_def)

lemma int_str_str_nat: "int_str (str_nat n) = Inr (int n)"
proof -
  obtain c cs where cs: "str_nat n = c # cs" using str_nat_ne by (cases "str_nat n") auto
  have "is_digit c" using str_nat_digits [of n] cs by simp
  then have "c \<noteq> CHR ''-''" "c \<noteq> CHR ''+''" using is_digit_not_sign by auto
  moreover have "strip (str_nat n) = c # cs" using strip_digits [OF str_nat_digits, of n] cs by simp
  moreover have "int_digits (c # cs) = Inr n" using int_digits_str_nat [of n] cs by simp
  ultimately show ?thesis by (simp add: int_str_def)
qed

lemma drop_ext_json: "drop_ext (s @ ''.json'') = s"
  by (simp add: drop_ext_def)

lemma str_nat_inj:
  assumes "str_nat m = str_nat n"
  shows "m = n"
proof -
  have "int_str (str_nat m) = int_str (str_nat n)" using assms by (rule arg_cong)
  then show ?thesis by (simp add: int_str_str_nat)
qed

lemma str_Suc: "str (int n + 1) = str_nat (Suc n)"
  by (simp add: str_def nat_add_distrib)

lemma char_of_49: "char_of (49 :: nat) = CHR ''1''"
  by code_simp

lemma str_nat_1: "str_nat (Suc 0) = ''1''"
  by (subst str_nat.simps) (simp add: digit_char_def char_of_49)


lemma score_now: "score_struct now (JInt now) 0 = Inr (1 / 2 powr 1.4)"
  by (simp add: score_struct_def GRAVITY_def TIME_INTERVAL_def)

lemma ints_of_names_seq:
  "ints_of_names (map (\<lambda>i. str_nat i @ ''.json'') xs) = Inr (map int xs)"
  by (induction xs) (simp_all add: drop_ext_json int_str_str_nat)

lemma Max_upto: "0 < n \<Longrightarrow> Max (set (map int [1..<Suc n])) = int n"
  by (rule Max_eqI) auto

lemma new_struct_id_seq:
  "new_struct_id (map (\<lambda>i. str_nat i @ ''.json'') [1..<Suc n]) = Inr (str_nat (Suc n))"
proof (cases "n = 0")
  case True
  then show ?thesis by (simp add: new_struct_id_def str_nat_1)
next
  case False
  then have "Max (set (map int [1..<Suc n])) = int n" by (intro Max_upto) simp
  then show ?thesis
    using False by (simp add: new_struct_id_def ints_of_names_seq str_Suc del: upt_Suc)
qed

lemma update_fresh: "k \<notin> fst ` set al \<Longrightarrow> AList.update k v al = al @ [(k, v)]"
  by (induction al) auto

lemma user_folder_update:
  "user_folder (st\<lparr>structs := AList.update u f (structs st)\<rparr>) v =
     (if v = u then f else user_folder st v)"
  by (simp add: user_folder_def update_conv')

lemma user_folder_session [simp]:
  "user_folder (st\<lparr>session_uid := x\<rparr>) v = user_folder st v"
  by (simp add: user_folder_def)

lemma user_folder_write:
  "user_folder (write_struct st u fname content) v =
     (if v = u then AList.update fname content (user_folder st u) else user_folder st v)"
  by (simp add: write_struct_def user_folder_update)

lemma name_fresh:
  "str_nat (Suc n) @ ''.json'' \<notin> set (map (\<lambda>i. str_nat i @ ''.json'') [1..<Suc n])"
proof
  assume "str_nat (Suc n) @ ''.json'' \<in> set (map (\<lambda>i. str_nat i @ ''.json'') [1..<Suc n])"
  then obtain i where "i \<in> set [1..<Suc n]" "str_nat (Suc n) @ ''.json'' = str_nat i @ ''.json''"
    by auto
  then have "i < Suc n" "str_nat (Suc n) = str_nat i" by auto
  then show False using str_nat_inj by blast
qed

lemma locate_component: "path_component u \<Longrightarrow> locate u = UserDir u"
  by (simp add: locate_def)

lemma locate_modelled: "locate u \<noteq> Unmodelled \<Longrightarrow> path_component u \<or> u = ''..''"
  by (simp add: locate_def split: if_splits)

lemma locate_dotdot: "locate ''..'' = DataDir"
  by (simp add: locate_def path_component_def)

lemma new_struct_id_data_names: "new_struct_id data_names = Inl ValueError"
  by (simp add: new_struct_id_def data_names_def drop_ext_def int_str_def strip_def)

lemma handle_share_dotdot:
  "handle_share dumps now (st\<lparr>session_uid := Some ''..''\<rparr>) data =
     Some (st\<lparr>session_uid := Some ''..''\<rparr>, [], Some ValueError)"
  by (simp add: handle_share_def locate_dotdot new_struct_id_data_names)

lemma handle_share_step:
  assumes good: "map fst (user_folder st u) =
      map (\<lambda>i. str_nat i @ ''.json'') [1..<Suc (length (user_folder st u))]"
    and pc: "path_component u"
  shows "\<exists>st' content.
      handle_share dumps now (st\<lparr>session_uid := Some u\<rparr>) data =
        Some (st',
         (case map_of data ''struct'' of
            None \<Rightarrow> []
          | Some s \<Rightarrow> [Emission ''struct''
               (StructMsg (scrub_uid u) (str_nat (Suc (length (user_folder st u)))) (1 / 2 powr 1.4)
                  (JArray []) s) (Some ''community'')]),
         (case map_of data ''struct'' of None \<Rightarrow> Some KeyError | Some s \<Rightarrow> None)) \<and>
      (\<forall>v. user_folder st' v =
         (if v = u
          then user_folder st u @ [(str_nat (Suc (length (user_folder st u))) @ ''.json'', content)]
          else user_folder st v))"
proof -
  define n where "n = length (user_folder st u)"
  define name where "name = str_nat (Suc n) @ ''.json''"
  define st1 where "st1 = st\<lparr>session_uid := Some u,
      structs := AList.update u (user_folder st u) (structs st)\<rparr>"
  have loc: "locate u = UserDir u" using pc by (rule locate_component)
  have id: "new_struct_id (map fst (user_folder st u)) = Inr (str_nat (Suc n))"
    using good new_struct_id_seq [of n] by (simp add: n_def)
  have "set (map fst (user_folder st u)) = set (map (\<lambda>i. str_nat i @ ''.json'') [1..<Suc n])"
    using good by (simp only: n_def)
  then have fresh: "name \<notin> fst ` set (user_folder st u)"
    using name_fresh [of n] by (simp only: name_def set_map) simp
  have uf1: "\<And>v. user_folder st1 v = user_folder st v"
    by (simp add: st1_def user_folder_def update_conv')
  have wr: "\<And>c v. user_folder (write_struct st1 u name c) v =
      (if v = u then user_folder st u @ [(name, c)] else user_folder st v)"
    using fresh by (simp add: user_folder_write uf1 update_fresh)
  show ?thesis
  proof (cases "map_of data ''struct''")
    case None
    have "handle_share dumps now (st\<lparr>session_uid := Some u\<rparr>) data =
        Some (write_struct st1 u name (''[]'' @ [NL] @ str now @ [NL]), [], Some KeyError)"
      using None id loc
      by (simp add: handle_share_def Let_def score_now st1_def name_def)
    then show ?thesis using None wr by (auto simp: n_def name_def)
  next
    case (Some s)
    have "handle_share dumps now (st\<lparr>session_uid := Some u\<rparr>) data =
        Some (write_struct st1 u name (''[]'' @ [NL] @ str now @ [NL] @ dumps s),
         [Emission ''struct'' (StructMsg (scrub_uid u) (str_nat (Suc n)) (1 / 2 powr 1.4) (JArray []) s)
            (Some ''community'')], None)"
      using Some id loc
      by (simp add: handle_share_def Let_def score_now st1_def name_def)
    then show ?thesis using Some wr by (auto simp: n_def name_def)
  qed
qed

lemma handle_share_keeps_numbering:
  assumes good: "\<forall>u. map fst (user_folder st u) =
      map (\<lambda>i. str_nat i @ ''.json'') [1..<Suc (length (user_folder st u))]"
    and modelled: "locate v \<noteq> Unmodelled"
  shows "\<exists>out. handle_share dumps now (st\<lparr>session_uid := Some v\<rparr>) data = Some out \<and>
    (\<forall>u. map fst (user_folder (fst out) u) =
      map (\<lambda>i. str_nat i @ ''.json'') [1..<Suc (length (user_folder (fst out) u))]) \<and>
    (\<forall>u. length (user_folder (fst out) u) =
      length (user_folder st u) + (if u = v \<and> path_component v then 1 else 0))"
proof (cases "path_component v")
  case False
  then have v: "v = ''..''" using locate_modelled [OF modelled] by blast
  have "handle_share dumps now (st\<lparr>session_uid := Some v\<rparr>) data =
      Some (st\<lparr>session_uid := Some v\<rparr>, [], Some ValueError)"
    unfolding v by (rule handle_share_dotdot)
  then show ?thesis using good False by simp
next
  case True
  from good have gv: "map fst (user_folder st v) =
      map (\<lambda>i. str_nat i @ ''.json'') [1..<Suc (length (user_folder st v))]" by blast
  obtain out content where
    hs: "handle_share dumps now (st\<lparr>session_uid := Some v\<rparr>) data = Some out"
    and uf: "\<forall>w. user_folder (fst out) w =
         (if w = v
          then user_folder st v @ [(str_nat (Suc (length (user_folder st v))) @ ''.json'', content)]
          else user_folder st w)"
    using handle_share_step [OF gv True, of dumps now data] by fastforce
  have "\<forall>u. map fst (user_folder (fst out) u) =
      map (\<lambda>i. str_nat i @ ''.json'') [1..<Suc (length (user_folder (fst out) u))]"
  proof
    fix u
    show "map fst (user_folder (fst out) u) =
      map (\<lambda>i. str_nat i @ ''.json'') [1..<Suc (length (user_folder (fst out) u))]"
    proof (cases "u = v")
      case True
      then show ?thesis using uf gv by simp
    next
      case False
      then show ?thesis using uf good by simp
    qed
  qed
  moreover have "\<forall>u. length (user_folder (fst out) u) =
      length (user_folder st u) + (if u = v \<and> path_component v then 1 else 0)"
    using uf True by simp
  ultimately show ?thesis using hs by blast
qed

lemma run_shares_numbering:
  "\<forall>u. map fst (user_folder st u) =
      map (\<lambda>i. str_nat i @ ''.json'') [1..<Suc (length (user_folder st u))] \<Longrightarrow>
   \<forall>op\<in>set ops. locate (fst op) \<noteq> Unmodelled \<Longrightarrow>
   \<exists>st'. run_shares dumps st ops = Some st' \<and>
     (\<forall>u. map fst (user_folder st' u) =
        map (\<lambda>i. str_nat i @ ''.json'') [1..<Suc (length (user_folder st' u))]) \<and>
     (\<forall>u. length (user_folder st' u) =
        length (user_folder st u) +
        length (filter (\<lambda>op. fst op = u \<and> path_component (fst op)) ops))"
proof (induction ops arbitrary: st)
  case Nil
  then show ?case by simp
next
  case (Cons op ops)
  obtain v now data where op: "op = (v, now, data)" by (cases op) auto
  have mv: "locate v \<noteq> Unmodelled" using Cons.prems(2) op by simp
  obtain out where
    hs: "handle_share dumps now (st\<lparr>session_uid := Some v\<rparr>) data = Some out"
    and g': "\<forall>u. map fst (user_folder (fst out) u) =
      map (\<lambda>i. str_nat i @ ''.json'') [1..<Suc (length (user_folder (fst out) u))]"
    and len: "\<forall>u. length (user_folder (fst out) u) =
      length (user_folder st u) + (if u = v \<and> path_component v then 1 else 0)"
    using handle_share_keeps_numbering [OF Cons.prems(1) mv, of dumps now data] by blast
  have rest: "\<forall>op\<in>set ops. locate (fst op) \<noteq> Unmodelled" using Cons.prems(2) by simp
  obtain st' where
    r: "run_shares dumps (fst out) ops = Some st'"
    and g'': "\<forall>u. map fst (user_folder st' u) =
        map (\<lambda>i. str_nat i @ ''.json'') [1..<Suc (length (user_folder st' u))]"
    and len': "\<forall>u. length (user_folder st' u) =
        length (user_folder (fst out) u) +
        length (filter (\<lambda>op. fst op = u \<and> path_component (fst op)) ops)"
    using Cons.IH [OF g' rest] by blast
  have "run_shares dumps st (op # ops) = Some st'" using hs r by (simp add: op)
  moreover have "\<forall>u. length (user_folder st' u) =
        length (user_folder st u) +
        length (filter (\<lambda>op. fst op = u \<and> path_component (fst op)) (op # ops))"
    using len len' by (auto simp: op)
  ultimately show ?case using g'' by blast
qed

lemma empty_server_numbering:
  "\<forall>u. map fst (user_folder empty_server u) =
      map (\<lambda>i. str_nat i @ ''.json'') [1..<Suc (length (user_folder empty_server u))]"
  by (simp add: empty_server_def user_folder_def)

text \<open>
  C4, as stated, for the owner whose session id is \<^verbatim>\<open>..\<close>: the path
  \<^verbatim>\<open>data/structs/..\<close> is \<^verbatim>\<open>data/\<close>, whose entries \<^verbatim>\<open>log\<close> and \<^verbatim>\<open>structs\<close> are
  not numbers, so the first share of this owner raises ValueError; no record is stored,
  no local id \<^verbatim>\<open>"1"\<close> is assigned and nothing is broadcast.
\<close>

theorem share_local_id_counterexample:
  "run_shares (\<lambda>j. ''{}'') empty_server [] = Some empty_server \<and>
   handle_share (\<lambda>j. ''{}'') 100 (empty_server\<lparr>session_uid := Some ''..''\<rparr>)
       [(''struct'', JObject [])]
     = Some (empty_server\<lparr>session_uid := Some ''..''\<rparr>, [], Some ValueError)"
  by (simp add: handle_share_def locate_def path_component_def new_struct_id_def data_names_def
        drop_ext_def int_str_def strip_def)

text \<open>
  C4 (amended): for every owner whose session id is a single path component, after any
  run of share requests on an empty store (by owners whose ids are single path components
  or \<^verbatim>\<open>..\<close>), a further share by that owner gets as local id the number of that
  owner's existing records plus one. The existing records of the owner are numbered
  \<open>1, \<dots>, n\<close> (one per earlier share of that owner), the new name is not among them, and
  the first record of an owner gets the id \<^verbatim>\<open>"1"\<close>. The code computes the largest
  existing id plus one, which is the count plus one on every such store.
\<close>

theorem share_local_id:
  assumes "path_component owner"
    and "\<forall>op\<in>set ops. locate (fst op) \<noteq> Unmodelled"
    and "map_of data ''struct'' = Some s"
  shows "\<exists>st. run_shares dumps empty_server ops = Some st \<and>
        (let n = length (user_folder st owner);
             new_id = str (int n + 1)
         in n = length (filter (\<lambda>op. fst op = owner) ops) \<and>
            map fst (user_folder st owner) = map (\<lambda>i. str (int i) @ ''.json'') [1..<Suc n] \<and>
            new_id @ ''.json'' \<notin> fst ` set (user_folder st owner) \<and>
            (\<exists>st' score.
               handle_share dumps now (st\<lparr>session_uid := Some owner\<rparr>) data =
                 Some (st',
                  [Emission ''struct'' (StructMsg (scrub_uid owner) new_id score (JArray []) s)
                     (Some ''community'')],
                  None) \<and>
               map fst (user_folder st' owner) =
                 map fst (user_folder st owner) @ [new_id @ ''.json'']) \<and>
            str (int 0 + 1) = ''1'')"
proof -
  obtain st where
    run: "run_shares dumps empty_server ops = Some st"
    and good: "\<forall>u. map fst (user_folder st u) =
        map (\<lambda>i. str_nat i @ ''.json'') [1..<Suc (length (user_folder st u))]"
    and len: "\<forall>u. length (user_folder st u) =
        length (user_folder empty_server u) +
        length (filter (\<lambda>op. fst op = u \<and> path_component (fst op)) ops)"
    using run_shares_numbering [OF empty_server_numbering assms(2), of dumps] by blast
  define n where "n = length (user_folder st owner)"
  have g: "map fst (user_folder st owner) =
      map (\<lambda>i. str_nat i @ ''.json'') [1..<Suc n]" using good by (simp add: n_def)
  have "filter (\<lambda>op. fst op = owner \<and> path_component (fst op)) ops =
      filter (\<lambda>op. fst op = owner) ops"
    using assms(1) by (intro filter_cong) auto
  then have cnt: "n = length (filter (\<lambda>op. fst op = owner) ops)"
    using len by (simp add: n_def empty_server_def user_folder_def)
  have strs: "(\<lambda>i. str (int i) @ ''.json'') = (\<lambda>i. str_nat i @ ''.json'')"
    by (simp add: str_def)
  have newid: "str (int n + 1) = str_nat (Suc n)" by (rule str_Suc)
  have "set (map fst (user_folder st owner)) = set (map (\<lambda>i. str_nat i @ ''.json'') [1..<Suc n])"
    using g by simp
  then have fresh: "str_nat (Suc n) @ ''.json'' \<notin> fst ` set (user_folder st owner)"
    using name_fresh [of n] by (simp only: set_map) simp
  obtain st' content where
    hs: "handle_share dumps now (st\<lparr>session_uid := Some owner\<rparr>) data =
        Some (st',
         [Emission ''struct'' (StructMsg (scrub_uid owner) (str_nat (Suc n)) (1 / 2 powr 1.4) (JArray []) s)
            (Some ''community'')], None)"
    and uf: "\<forall>v. user_folder st' v =
         (if v = owner then user_folder st owner @ [(str_nat (Suc n) @ ''.json'', content)]
          else user_folder st v)"
    using handle_share_step [of st owner dumps now data] g assms(1,3) by (auto simp: n_def)
  have one: "str (int 0 + 1) = ''1''" using str_Suc [of 0] by (simp add: str_nat_1)
  have ex: "\<exists>st' score.
               handle_share dumps now (st\<lparr>session_uid := Some owner\<rparr>) data =
                 Some (st',
                  [Emission ''struct'' (StructMsg (scrub_uid owner) (str (int n + 1)) score (JArray []) s)
                     (Some ''community'')],
                  None) \<and>
               map fst (user_folder st' owner) =
                 map fst (user_folder st owner) @ [str (int n + 1) @ ''.json'']"
    using hs uf newid by auto
  have g': "map fst (user_folder st owner) = map (\<lambda>i. str (int i) @ ''.json'') [1..<Suc n]"
    unfolding strs by (rule g)
  have fresh': "str (int n + 1) @ ''.json'' \<notin> fst ` set (user_folder st owner)"
    unfolding newid by (rule fresh)
  have "let n = length (user_folder st owner);
             new_id = str (int n + 1)
         in n = length (filter (\<lambda>op. fst op = owner) ops) \<and>
            map fst (user_folder st owner) = map (\<lambda>i. str (int i) @ ''.json'') [1..<Suc n] \<and>
            new_id @ ''.json'' \<notin> fst ` set (user_folder st owner) \<and>
            (\<exists>st' score.
               handle_share dumps now (st\<lparr>session_uid := Some owner\<rparr>) data =
                 Some (st',
                  [Emission ''struct'' (StructMsg (scrub_uid owner) new_id score (JArray []) s)
                     (Some ''community'')],
                  None) \<and>
               map fst (user_folder st' owner) =
                 map fst (user_folder st owner) @ [new_id @ ''.json'']) \<and>
            str (int 0 + 1) = ''1''"
    unfolding Let_def n_def [symmetric]
    using cnt g' fresh' ex one by blast
  with run show ?thesis by blast
qed

theorem share_local_id_witness:
  "\<exists>st st' score.
     run_shares (\<lambda>j. ''{}'') empty_server
        [(''alice'', 5, [(''struct'', JNull)]), (''..'', 6, [(''struct'', JNull)])] = Some st \<and>
     handle_share (\<lambda>j. ''{}'') 9 (st\<lparr>session_uid := Some ''alice''\<rparr>) [(''struct'', JObject [])]
      = Some (st', [Emission ''struct'' (StructMsg (scrub_uid ''alice'') (str 2) score (JArray []) (JObject []))
                 (Some ''community'')], None)"
proof -
  let ?ops = "[(''alice'', 5 :: int, [(''struct'', JNull)]), (''..'', 6, [(''struct'', JNull)])]"
  have a: "path_component ''alice''" by (simp add: path_component_def)
  have b: "\<forall>op\<in>set ?ops. locate (fst op) \<noteq> Unmodelled"
    by (simp add: locate_def path_component_def)
  have c: "map_of [(''struct'', JObject [])] ''struct'' = Some (JObject [])" by simp
  from share_local_id [OF a b c, of "\<lambda>j. ''{}''" 9, unfolded Let_def]
  obtain st where
    run: "run_shares (\<lambda>j. ''{}'') empty_server ?ops = Some st"
    and n: "length (user_folder st ''alice'') = length (filter (\<lambda>op. fst op = ''alice'') ?ops)"
    and ex: "\<exists>st' score.
        handle_share (\<lambda>j. ''{}'') 9 (st\<lparr>session_uid := Some ''alice''\<rparr>) [(''struct'', JObject [])]
          = Some (st', [Emission ''struct'' (StructMsg (scrub_uid ''alice'')
                 (str (int (length (user_folder st ''alice'')) + 1)) score (JArray []) (JObject []))
                 (Some ''community'')], None) \<and>
        map fst (user_folder st' ''alice'') =
          map fst (user_folder st ''alice'') @
            [str (int (length (user_folder st ''alice'')) + 1) @ ''.json'']"
    by blast
  have n2: "int (length (user_folder st ''alice'')) + 1 = 2" unfolding n by simp
  from ex run show ?thesis unfolding n2 by blast
qed

subsection \<open>Replay of the stored structs\<close>

lemma emit_struct_file_skip:
  "length (readlines content) \<noteq> 3 \<Longrightarrow> emit_struct_file loads now uid fname content = Inr []"
  by (simp add: emit_struct_file_def)

lemma emit_struct_file_one:
  assumes "length (readlines content) = 3"
    and "loads (strip (readlines content ! 0)) = Inr u"
    and "loads (strip (readlines content ! 1)) = Inr t"
    and "loads (strip (readlines content ! 2)) = Inr s"
    and "py_len u = Inr n" and "score_struct now t n = Inr sc"
  shows "emit_struct_file loads now uid fname content =
      Inr [Emission ''struct'' (StructMsg (scrub_uid uid) (drop_ext fname) sc u s) None]"
  using assms by (simp add: emit_struct_file_def)

lemma emit_struct_file_length:
  "emit_struct_file loads now uid fname content = Inr ms \<Longrightarrow>
   length ms = (if length (readlines content) = 3 then 1 else 0)"
  by (auto simp: emit_struct_file_def Let_def split: sum.splits if_splits)

lemma emit_files_ok:
  "\<forall>(fname, content)\<in>set files. \<forall>e. emit_struct_file loads now uid fname content \<noteq> Inl e \<Longrightarrow>
   emit_files loads now uid files =
     (concat (map (\<lambda>(fname, content). projr (emit_struct_file loads now uid fname content)) files),
      None)"
proof (induction files)
  case Nil
  then show ?case by simp
next
  case (Cons f files)
  obtain fname content where f: "f = (fname, content)" by (cases f) auto
  from Cons.prems f obtain ms where ms: "emit_struct_file loads now uid fname content = Inr ms"
    by (cases "emit_struct_file loads now uid fname content") auto
  from Cons have "emit_files loads now uid files =
     (concat (map (\<lambda>(fname, content). projr (emit_struct_file loads now uid fname content)) files),
      None)" by simp
  then show ?case using f ms by simp
qed

lemma emit_folders_ok:
  "\<forall>(uid, files)\<in>set folders. \<forall>(fname, content)\<in>set files.
      \<forall>e. emit_struct_file loads now uid fname content \<noteq> Inl e \<Longrightarrow>
   emit_folders loads now folders =
     (concat (map (\<lambda>(uid, files).
        concat (map (\<lambda>(fname, content). projr (emit_struct_file loads now uid fname content)) files))
        folders),
      None)"
proof (induction folders)
  case Nil
  then show ?case by simp
next
  case (Cons d folders)
  obtain uid files where d: "d = (uid, files)" by (cases d) auto
  have "emit_files loads now uid files =
     (concat (map (\<lambda>(fname, content). projr (emit_struct_file loads now uid fname content)) files),
      None)"
    using Cons.prems d by (intro emit_files_ok) auto
  moreover from Cons have "emit_folders loads now folders =
     (concat (map (\<lambda>(uid, files).
        concat (map (\<lambda>(fname, content). projr (emit_struct_file loads now uid fname content)) files))
        folders),
      None)" by simp
  ultimately show ?case using d by simp
qed

lemma emitted_count_files:
  "\<forall>(fname, content)\<in>set files. \<forall>e. emit_struct_file loads now uid fname content \<noteq> Inl e \<Longrightarrow>
   length (concat (map (\<lambda>(fname, content). projr (emit_struct_file loads now uid fname content)) files))
     = length (filter (\<lambda>(fname, content). length (readlines content) = 3) files)"
proof (induction files)
  case Nil
  then show ?case by simp
next
  case (Cons f files)
  obtain fname content where f: "f = (fname, content)" by (cases f) auto
  from Cons.prems f obtain ms where ms: "emit_struct_file loads now uid fname content = Inr ms"
    by (cases "emit_struct_file loads now uid fname content") auto
  have "length ms = (if length (readlines content) = 3 then 1 else 0)"
    using ms by (rule emit_struct_file_length)
  moreover from Cons have "length (concat (map (\<lambda>(fname, content). projr (emit_struct_file loads now uid fname content)) files))
     = length (filter (\<lambda>(fname, content). length (readlines content) = 3) files)" by simp
  ultimately show ?case using f ms by simp
qed

lemma emitted_count_folders:
  "\<forall>(uid, files)\<in>set folders. \<forall>(fname, content)\<in>set files.
      \<forall>e. emit_struct_file loads now uid fname content \<noteq> Inl e \<Longrightarrow>
   length (concat (map (\<lambda>(uid, files).
        concat (map (\<lambda>(fname, content). projr (emit_struct_file loads now uid fname content)) files))
        folders))
     = length (filter (\<lambda>(fname, content). length (readlines content) = 3) (concat (map snd folders)))"
proof (induction folders)
  case Nil
  then show ?case by simp
next
  case (Cons d folders)
  obtain uid files where d: "d = (uid, files)" by (cases d) auto
  have "length (concat (map (\<lambda>(fname, content). projr (emit_struct_file loads now uid fname content)) files))
     = length (filter (\<lambda>(fname, content). length (readlines content) = 3) files)"
    using Cons.prems d by (intro emitted_count_files) auto
  moreover from Cons have "length (concat (map (\<lambda>(uid, files).
        concat (map (\<lambda>(fname, content). projr (emit_struct_file loads now uid fname content)) files))
        folders))
     = length (filter (\<lambda>(fname, content). length (readlines content) = 3) (concat (map snd folders)))"
    by simp
  ultimately show ?case using d by simp
qed

text \<open>
  C10, as stated, on two files of exactly three lines: one as \<^verbatim>\<open>handle_share\<close> wrote it
  when the clock read 3600, replayed when the clock reads 0, and one whose first line is
  not JSON. Neither produces a struct event; the replay ends with ZeroDivisionError,
  respectively ValueError.
\<close>

theorem emit_structs_three_lines_counterexample:
  "length (readlines (''[]'' @ [NL] @ ''3600'' @ [NL] @ ''{}'')) = 3 \<and>
   emit_structs
     (\<lambda>s. if s = ''[]'' then Inr (JArray []) else if s = ''3600'' then Inr (JInt 3600)
          else if s = ''{}'' then Inr (JObject []) else Inl ValueError)
     0
     \<lparr>structs = [(''alice'', [(''1.json'', ''[]'' @ [NL] @ ''3600'' @ [NL] @ ''{}'')])],
      logs = [], session_uid = None\<rparr>
     = ([], Some ZeroDivisionError) \<and>
   length (readlines (''not json'' @ [NL] @ ''0'' @ [NL] @ ''{}'')) = 3 \<and>
   emit_structs
     (\<lambda>s. if s = ''0'' then Inr (JInt 0)
          else if s = ''{}'' then Inr (JObject []) else Inl ValueError)
     0
     \<lparr>structs = [(''alice'', [(''1.json'', ''not json'' @ [NL] @ ''0'' @ [NL] @ ''{}'')])],
      logs = [], session_uid = None\<rparr>
     = ([], Some ValueError)"
  by (simp add: emit_structs_def emit_struct_file_def strip_def is_space_def
        score_struct_def GRAVITY_def TIME_INTERVAL_def)

text \<open>
  C10 (amended): during the replay a struct file whose content is not exactly three lines
  is skipped, with no struct event and no error; a file of exactly three lines whose
  lines parse as JSON and whose score can be computed produces exactly one struct event;
  and when no file of the store raises, the replay raises nothing and emits exactly one
  event per three-line file, in listing order.
\<close>

theorem emit_structs_three_lines:
  "(length (readlines content) \<noteq> 3 \<longrightarrow> emit_struct_file loads now uid fname content = Inr [])
   \<and> (length (readlines content) = 3 \<and>
       loads (strip (readlines content ! 0)) = Inr u \<and>
       loads (strip (readlines content ! 1)) = Inr t \<and>
       loads (strip (readlines content ! 2)) = Inr s \<and>
       py_len u = Inr n \<and> score_struct now t n = Inr sc \<longrightarrow>
       emit_struct_file loads now uid fname content =
         Inr [Emission ''struct'' (StructMsg (scrub_uid uid) (drop_ext fname) sc u s) None])
   \<and> ((\<forall>(uid, files)\<in>set (structs st). \<forall>(fname, content)\<in>set files.
          \<forall>e. emit_struct_file loads now uid fname content \<noteq> Inl e) \<longrightarrow>
       snd (emit_structs loads now st) = None \<and>
       fst (emit_structs loads now st) =
         concat (map (\<lambda>(uid, files).
           concat (map (\<lambda>(fname, content). projr (emit_struct_file loads now uid fname content)) files))
           (structs st)) \<and>
       length (fst (emit_structs loads now st)) =
         length (filter (\<lambda>(fname, content). length (readlines content) = 3)
                   (concat (map snd (structs st)))))"
proof (intro conjI impI)
  show "length (readlines content) \<noteq> 3 \<Longrightarrow> emit_struct_file loads now uid fname content = Inr []"
    by (rule emit_struct_file_skip)
next
  assume "length (readlines content) = 3 \<and>
       loads (strip (readlines content ! 0)) = Inr u \<and>
       loads (strip (readlines content ! 1)) = Inr t \<and>
       loads (strip (readlines content ! 2)) = Inr s \<and>
       py_len u = Inr n \<and> score_struct now t n = Inr sc"
  then show "emit_struct_file loads now uid fname content =
         Inr [Emission ''struct'' (StructMsg (scrub_uid uid) (drop_ext fname) sc u s) None]"
    by (blast intro: emit_struct_file_one)
next
  assume a: "\<forall>(uid, files)\<in>set (structs st). \<forall>(fname, content)\<in>set files.
          \<forall>e. emit_struct_file loads now uid fname content \<noteq> Inl e"
  have e: "emit_structs loads now st =
     (concat (map (\<lambda>(uid, files).
        concat (map (\<lambda>(fname, content). projr (emit_struct_file loads now uid fname content)) files))
        (structs st)),
      None)"
    unfolding emit_structs_def by (rule emit_folders_ok [OF a])
  show "snd (emit_structs loads now st) = None" using e by simp
  show "fst (emit_structs loads now st) =
         concat (map (\<lambda>(uid, files).
           concat (map (\<lambda>(fname, content). projr (emit_struct_file loads now uid fname content)) files))
           (structs st))" using e by simp
  show "length (fst (emit_structs loads now st)) =
         length (filter (\<lambda>(fname, content). length (readlines content) = 3)
                   (concat (map snd (structs st))))"
    using e emitted_count_folders [OF a] by simp
qed

theorem emit_structs_three_lines_witness:
  "emit_structs
     (\<lambda>s. if s = ''[]'' then Inr (JArray []) else if s = ''100'' then Inr (JInt 100)
          else if s = ''{}'' then Inr (JObject []) else Inl ValueError)
     100
     \<lparr>structs = [(''alice'', [(''1.json'', ''[]'' @ [NL] @ ''100'' @ [NL] @ ''{}''),
                              (''2.json'', ''[]'' @ [NL] @ ''100'' @ [NL])])],
      logs = [], session_uid = None\<rparr>
     = ([Emission ''struct'' (StructMsg ''alice'' ''1'' (1 / 2 powr 1.4) (JArray []) (JObject [])) None],
        None)"
proof -
  let ?loads = "\<lambda>s. if s = ''[]'' then Inr (JArray []) else if s = ''100'' then Inr (JInt 100)
          else if s = ''{}'' then Inr (JObject []) else (Inl ValueError :: error + json)"
  let ?st = "\<lparr>structs = [(''alice'', [(''1.json'', ''[]'' @ [NL] @ ''100'' @ [NL] @ ''{}''),
                              (''2.json'', ''[]'' @ [NL] @ ''100'' @ [NL])])],
      logs = [], session_uid = None\<rparr>"
  have f1: "emit_struct_file ?loads 100 ''alice'' ''1.json'' (''[]'' @ [NL] @ ''100'' @ [NL] @ ''{}'')
      = Inr [Emission ''struct'' (StructMsg ''alice'' ''1'' (1 / 2 powr 1.4) (JArray []) (JObject [])) None]"
    by (simp add: emit_struct_file_def strip_def is_space_def score_struct_def GRAVITY_def
          TIME_INTERVAL_def scrub_uid_def drop_ext_def)
  have f2: "emit_struct_file ?loads 100 ''alice'' ''2.json'' (''[]'' @ [NL] @ ''100'' @ [NL]) = Inr []"
    by (simp add: emit_struct_file_def)
  show ?thesis
    using emit_structs_three_lines [of "[]" ?loads 100 "[]" "[]" JNull JNull JNull 0 0 ?st] f1 f2
    by (simp add: prod_eq_iff)
qed

end
